theory Spec2Isabelle
  imports Main
begin

section \<open>Errors, options and the environment's choices\<close>

text \<open>
  Errors are values. \<open>DriverError\<close> stands for whatever the pg driver throws (a failed
  connect, a rejected query); the other constructors are the classes of
  \<^verbatim>\<open>errors/OrmError.ts\<close>. \<open>PlainError\<close> is a bare \<^verbatim>\<open>new Error(msg)\<close>.
\<close>

datatype error =
    DriverError string
  | PlainError string
  | OrmError string
  | DatabaseConnectionError string

fun message :: "error \<Rightarrow> string" where
  "message (DriverError m) = m"
| "message (PlainError m) = m"
| "message (OrmError m) = m"
| "message (DatabaseConnectionError m) = m"

text \<open>\<^verbatim>\<open>ConnectionOptions\<close> / \<^verbatim>\<open>TransactionOptions\<close>: both fields optional.\<close>

record ConnectionOptions =
  isolationLevel :: "string option"
  readOnly :: "bool option"

text \<open>\<^verbatim>\<open>options?.isolationLevel\<close> used as a condition: present and a non-empty string.\<close>

definition isolationLevelOf :: "ConnectionOptions option \<Rightarrow> string option" where
  "isolationLevelOf options =
     (case options of
        None \<Rightarrow> None
      | Some opts \<Rightarrow>
          (case isolationLevel opts of
             None \<Rightarrow> None
           | Some l \<Rightarrow> if l = [] then None else Some l))"

text \<open>\<^verbatim>\<open>options?.readOnly\<close>, compared with \<^verbatim>\<open>undefined\<close>.\<close>

definition readOnlyOf :: "ConnectionOptions option \<Rightarrow> bool option" where
  "readOnlyOf options = (case options of None \<Rightarrow> None | Some opts \<Rightarrow> readOnly opts)"

text \<open>
  What \<^verbatim>\<open>pool.connect()\<close> settles with is the environment's choice: a failure
  (time-out, refused connection), an idle client of the pool, or a newly created client
  with its backend process id.
\<close>

datatype connect_choice =
    ConnectFail string
  | ConnectIdle nat
  | ConnectNew "nat option"

text \<open>
  How an awaited \<^verbatim>\<open>client.query(...)\<close> settles: it resolves, it rejects with a
  driver message, or its deadline timer fires first (the helper connection of the
  cancellation gets its own \<open>connect_choice\<close>, the forced release reads the clock) and
  the query then rejects.
\<close>

datatype query_outcome =
    QueryOk
  | QueryFail string
  | QueryTimeout connect_choice int string

section \<open>The pg pool\<close>

text \<open>
  Modelled from the spec: the \<^verbatim>\<open>pg\<close> \<^verbatim>\<open>Pool\<close> is a third-party
  collaborator, ``the shared, finite set of physical connections'' that ``owns
  configuration (max size, ...)''; an acquisition gets a connection only when one is
  available, and after disposal ``all further acquisition attempts fail''. Clients are
  addresses; a client is checked out (leased), idle, or gone. A released client goes back
  to the idle list unless the release carries an error (then it is destroyed). The
  release of a client that is not checked out, which \<^verbatim>\<open>pg\<close> answers by
  throwing, leaves the pool as it is; \<open>release_throws\<close> below names that case.
\<close>

record pg_pool =
  pool_max :: nat
  pool_leased :: "nat list"
  pool_idle :: "nat list"
  pool_nextClient :: nat
  pool_ended :: bool

definition pool_connect :: "pg_pool \<Rightarrow> connect_choice \<Rightarrow> string + (nat \<times> bool \<times> pg_pool)" where
  "pool_connect p choice =
     (if pool_ended p then Inl ''Cannot use a pool after calling end on the pool''
      else case choice of
        ConnectFail m \<Rightarrow> Inl m
      | ConnectIdle c \<Rightarrow>
          if c \<in> set (pool_idle p)
          then Inr (c, False, p\<lparr>pool_idle := removeAll c (pool_idle p),
                                  pool_leased := c # pool_leased p\<rparr>)
          else Inl ''timeout exceeded when trying to connect''
      | ConnectNew pid \<Rightarrow>
          if length (pool_leased p) + length (pool_idle p) < pool_max p
          then Inr (pool_nextClient p, True,
                    p\<lparr>pool_leased := pool_nextClient p # pool_leased p,
                      pool_nextClient := Suc (pool_nextClient p)\<rparr>)
          else Inl ''timeout exceeded when trying to connect'')"

definition pool_release :: "nat \<Rightarrow> bool \<Rightarrow> pg_pool \<Rightarrow> pg_pool" where
  "pool_release c discard p =
     (if c \<in> set (pool_leased p)
      then p\<lparr>pool_leased := removeAll c (pool_leased p),
              pool_idle := (if discard \<or> pool_ended p then pool_idle p else c # pool_idle p)\<rparr>
      else p)"

definition pool_end :: "pg_pool \<Rightarrow> pg_pool" where
  "pool_end p = p\<lparr>pool_idle := [], pool_ended := True\<rparr>"

section \<open>ConnectionPoolManager: data\<close>

datatype conn_event_type = Acquired | Released | Failed_acquire | Client_error_released

record conn_history_entry =
  ch_type :: conn_event_type
  ch_timestamp :: int
  ch_connectionId :: "string option"
  ch_durationMs :: "int option"
  ch_error :: "string option"

record ConnectionPoolMetrics =
  totalConnectionsCreated :: int
  acquiredConnections :: int
  releasedConnections :: int
  failedAcquisitions :: int
  activeLeasedConnections :: int
  maxConcurrentLeasedConnections :: int
  connectionDurations :: "int list"
  connectionHistory :: "conn_history_entry list"
  lastMetricsResetTime :: "int option"
  poolTotalCount :: "int option"
  poolIdleCount :: "int option"
  poolWaitingCount :: "int option"

text \<open>
  One object per lease: the \<^verbatim>\<open>ConnectionTimestamp\<close> that \<^verbatim>\<open>getConnection\<close>
  stores in \<^verbatim>\<open>connectionTimestamps\<close>, together with the variable
  \<^verbatim>\<open>currentQueryTimeoutTimer\<close> of the closure created by the same call. Both are
  reached through aliases (the map, the wrapper installed on the client), so lease objects
  live in a store and are named by address.
\<close>

record lease_obj =
  acquiredAt :: int
  lease_options :: "ConnectionOptions option"
  lease_processID :: "nat option"
  queryTimeoutTimer :: "nat option"
  currentQueryTimeoutTimer :: "nat option"

text \<open>
  The properties the manager reads and writes on a pg client object.
  \<open>originalQuery = Some a\<close> says that \<^verbatim>\<open>_originalQuery\<close> is set and
  \<^verbatim>\<open>client.query\<close> is the wrapper of lease \<open>a\<close> (the two are set together and
  removed together); \<open>originalRelease\<close> says that \<^verbatim>\<open>_originalRelease\<close> is set.
\<close>

record client_obj =
  connectionId :: "string option"
  originalQuery :: "nat option"
  originalRelease :: bool
  processID :: "nat option"

datatype pm_event = ErrorEvent error | ConnectionStatus int | Disposed

text \<open>
  The manager with everything it shares: the pool, the client objects, the lease objects,
  the pending timers of the runtime (timer handle to the client and process id its
  callback captured), the listeners registered for its \<^verbatim>\<open>'error'\<close> event, the events
  it delivered, and the process ids for which \<^verbatim>\<open>pg_cancel_backend\<close> was sent.
\<close>

record pool_manager =
  metrics :: ConnectionPoolMetrics
  connectionTimestamps :: "string \<rightharpoonup> nat"
  leases :: "nat \<Rightarrow> lease_obj"
  nextLease :: nat
  clients :: "nat \<Rightarrow> client_obj"
  pool :: pg_pool
  timers :: "nat \<rightharpoonup> (nat \<times> nat option)"
  nextTimer :: nat
  errorListeners :: nat
  emitted :: "pm_event list"
  cancelRequests :: "nat list"
  poolOptions_max :: "nat option"

section \<open>ConnectionPoolManager: operations\<close>

definition initializeMetrics :: "int \<Rightarrow> ConnectionPoolMetrics" where
  "initializeMetrics now =
     \<lparr>totalConnectionsCreated = 0, acquiredConnections = 0, releasedConnections = 0,
      failedAcquisitions = 0, activeLeasedConnections = 0,
      maxConcurrentLeasedConnections = 0, connectionDurations = [],
      connectionHistory = [], lastMetricsResetTime = Some now,
      poolTotalCount = Some 0, poolIdleCount = Some 0, poolWaitingCount = Some 0\<rparr>"

text \<open>\<^verbatim>\<open>this.poolOptions.max || 10\<close>: the configured maximum, 10 when absent or 0.\<close>

definition maxConnections :: "nat option \<Rightarrow> nat" where
  "maxConnections m = (case m of None \<Rightarrow> 10 | Some n \<Rightarrow> if n = 0 then 10 else n)"

definition new_client :: "nat option \<Rightarrow> client_obj" where
  "new_client pid =
     \<lparr>connectionId = None, originalQuery = None, originalRelease = False, processID = pid\<rparr>"

text \<open>The constructor; no listener is registered on the manager itself.\<close>

definition newConnectionPoolManager :: "nat option \<Rightarrow> int \<Rightarrow> pool_manager" where
  "newConnectionPoolManager cfg_max now =
     \<lparr>metrics = initializeMetrics now,
      connectionTimestamps = Map.empty,
      leases = (\<lambda>_. \<lparr>acquiredAt = 0, lease_options = None, lease_processID = None,
                      queryTimeoutTimer = None, currentQueryTimeoutTimer = None\<rparr>),
      nextLease = 0,
      clients = (\<lambda>_. new_client None),
      pool = \<lparr>pool_max = maxConnections cfg_max, pool_leased = [], pool_idle = [],
              pool_nextClient = 0, pool_ended = False\<rparr>,
      timers = Map.empty,
      nextTimer = 0,
      errorListeners = 0,
      emitted = [],
      cancelRequests = [],
      poolOptions_max = cfg_max\<rparr>"

text \<open>\<^verbatim>\<open>manager.on('error', listener)\<close>, inherited from \<^verbatim>\<open>EventEmitter\<close>.\<close>

definition onError :: "pool_manager \<Rightarrow> pool_manager" where
  "onError s = s\<lparr>errorListeners := Suc (errorListeners s)\<rparr>"

text \<open>
  \<^verbatim>\<open>this.emit('error', e)\<close>. The manager extends Node's \<^verbatim>\<open>EventEmitter\<close>, whose
  \<^verbatim>\<open>emit\<close> throws the error when no listener is registered for \<^verbatim>\<open>'error'\<close>;
  otherwise the event is delivered and \<^verbatim>\<open>emit\<close> returns.
\<close>

definition emit_error :: "error \<Rightarrow> pool_manager \<Rightarrow> error + pool_manager" where
  "emit_error e s =
     (if errorListeners s = 0 then Inl e
      else Inr (s\<lparr>emitted := emitted s @ [ErrorEvent e]\<rparr>))"

definition emitConnectionStatus :: "pool_manager \<Rightarrow> pool_manager" where
  "emitConnectionStatus s =
     s\<lparr>emitted := emitted s @ [ConnectionStatus (activeLeasedConnections (metrics s))]\<rparr>"

text \<open>\<^verbatim>\<open>MAX_HISTORY_SIZE = 200\<close>; \<^verbatim>\<open>shift()\<close> drops the oldest entry.\<close>

definition addHistory ::
  "conn_event_type \<Rightarrow> int \<Rightarrow> string option \<Rightarrow> int option \<Rightarrow> string option
     \<Rightarrow> ConnectionPoolMetrics \<Rightarrow> ConnectionPoolMetrics" where
  "addHistory ty now cid dur err m =
     (let h = connectionHistory m @
                [\<lparr>ch_type = ty, ch_timestamp = now, ch_connectionId = cid,
                  ch_durationMs = dur, ch_error = err\<rparr>]
      in m\<lparr>connectionHistory := (if length h > 200 then tl h else h)\<rparr>)"

definition clearTimeout :: "nat \<Rightarrow> pool_manager \<Rightarrow> pool_manager" where
  "clearTimeout t s = s\<lparr>timers := (timers s)(t := None)\<rparr>"

definition clearTimeout_opt :: "nat option \<Rightarrow> pool_manager \<Rightarrow> pool_manager" where
  "clearTimeout_opt t s = (case t of None \<Rightarrow> s | Some h \<Rightarrow> clearTimeout h s)"

text \<open>
  \<^verbatim>\<open>this.pool.connect()\<close> with the pool's \<^verbatim>\<open>'connect'\<close> listener, which counts
  every newly created physical connection.
\<close>

definition connect :: "connect_choice \<Rightarrow> pool_manager \<Rightarrow> (string + nat) \<times> pool_manager" where
  "connect choice s =
     (case pool_connect (pool s) choice of
        Inl m \<Rightarrow> (Inl m, s)
      | Inr (c, created, p) \<Rightarrow>
          (Inr c,
           if created
           then s\<lparr>pool := p,
                  clients := (clients s)(c := new_client (case choice of ConnectNew pid \<Rightarrow> pid | _ \<Rightarrow> None)),
                  metrics := (metrics s)\<lparr>totalConnectionsCreated :=
                                           totalConnectionsCreated (metrics s) + 1\<rparr>\<rparr>
           else s\<lparr>pool := p\<rparr>))"

text \<open>
  \<^verbatim>\<open>performClientRelease(client, errorIndication?, forceDiscardOption?)\<close>, block by
  block; \<open>now\<close> is the clock of this synchronous call. First the original
  \<^verbatim>\<open>query\<close> is put back when \<^verbatim>\<open>_originalQuery\<close> is set.
\<close>

definition restoreOriginalQuery :: "nat \<Rightarrow> pool_manager \<Rightarrow> pool_manager" where
  "restoreOriginalQuery c s =
     (if originalQuery (clients s c) \<noteq> None
      then s\<lparr>clients := (clients s)(c := (clients s c)\<lparr>originalQuery := None\<rparr>)\<rparr>
      else s)"

text \<open>
  \<^verbatim>\<open>_originalRelease\<close>, when set, is called (with an error or \<^verbatim>\<open>true\<close> the pool
  destroys the connection) and deleted.
\<close>

definition callOriginalRelease :: "nat \<Rightarrow> bool \<Rightarrow> pool_manager \<Rightarrow> pool_manager" where
  "callOriginalRelease c discard s =
     (if originalRelease (clients s c)
      then s\<lparr>pool := pool_release c discard (pool s),
             clients := (clients s)(c := (clients s c)\<lparr>originalRelease := False\<rparr>)\<rparr>
      else s)"

text \<open>The pending timer recorded in the lease's \<^verbatim>\<open>ConnectionTimestamp\<close> is cleared.\<close>

definition clearLeaseTimer :: "nat \<Rightarrow> pool_manager \<Rightarrow> pool_manager" where
  "clearLeaseTimer a s =
     (case queryTimeoutTimer (leases s a) of
        None \<Rightarrow> s
      | Some t \<Rightarrow>
          (clearTimeout t s)\<lparr>leases := (leases s)(a := (leases s a)\<lparr>queryTimeoutTimer := None\<rparr>)\<rparr>)"

text \<open>The bookkeeping of a tracked release: counters, duration, history, and the lease
  leaves the table and the client loses its id.\<close>

definition recordRelease ::
  "nat \<Rightarrow> string \<Rightarrow> nat \<Rightarrow> error option \<Rightarrow> int \<Rightarrow> pool_manager \<Rightarrow> pool_manager" where
  "recordRelease c i a errorIndication now s =
     (let durationMs = now - acquiredAt (leases s a);
          m = metrics s;
          m1 = m\<lparr>releasedConnections := releasedConnections m + 1,
                 activeLeasedConnections := max 0 (activeLeasedConnections m - 1),
                 connectionDurations := connectionDurations m @ [durationMs]\<rparr>
      in s\<lparr>metrics := addHistory
                 (if errorIndication \<noteq> None then Client_error_released else Released)
                 now (Some i) (Some durationMs) (map_option message errorIndication) m1,
             connectionTimestamps := (connectionTimestamps s)(i := None),
             clients := (clients s)(c := (clients s c)\<lparr>connectionId := None\<rparr>)\<rparr>)"

text \<open>
  The whole function. An untracked client (no id, or an id that is not in the table) only
  gets its original release called. Lease ids are the non-empty strings
  \<^verbatim>\<open>conn_...\<close> that \<^verbatim>\<open>getConnection\<close> generates, so
  \<^verbatim>\<open>!internalConnectionId\<close> is the absence of the id. The wrappers \<^verbatim>\<open>client.release(errOrBool)\<close> and
  \<^verbatim>\<open>releaseConnection(client, options)\<close> only pass their arguments on.
\<close>

definition performClientRelease ::
  "nat \<Rightarrow> error option \<Rightarrow> bool option \<Rightarrow> int \<Rightarrow> pool_manager \<Rightarrow> pool_manager" where
  "performClientRelease c errorIndication forceDiscardOption now s0 =
     (let internalConnectionId = connectionId (clients s0 c);
          s = restoreOriginalQuery c s0;
          discard = (errorIndication \<noteq> None \<or> forceDiscardOption = Some True)
      in case (case internalConnectionId of None \<Rightarrow> None
               | Some i \<Rightarrow> map_option (Pair i) (connectionTimestamps s i)) of
           None \<Rightarrow> callOriginalRelease c discard s
         | Some (i, a) \<Rightarrow>
             emitConnectionStatus
               (callOriginalRelease c discard
                  (recordRelease c i a errorIndication now (clearLeaseTimer a s))))"

definition releaseConnection ::
  "nat \<Rightarrow> error option \<Rightarrow> bool option \<Rightarrow> int \<Rightarrow> pool_manager \<Rightarrow> pool_manager" where
  "releaseConnection c err forceDiscard now s = performClientRelease c err forceDiscard now s"

text \<open>
  The body of the timer callback set by the query wrapper (\<^verbatim>\<open>QUERY_TIMEOUT_MS\<close> is
  10000), for the client and the process id it captured.
  \<^verbatim>\<open>if (currentClientProcessID)\<close> is false for an absent id and for 0. The helper
  connection is taken from the pool directly, used for one statement (whose own failure is
  only logged) and given back through its own pg release. A throwing \<^verbatim>\<open>emit\<close>
  ends the callback.
\<close>

definition cancelBackend :: "nat \<Rightarrow> connect_choice \<Rightarrow> pool_manager \<Rightarrow> pool_manager" where
  "cancelBackend pid choice s =
     (case connect choice s of
        (Inl m, s1) \<Rightarrow> s1
      | (Inr cancelClient, s1) \<Rightarrow>
          s1\<lparr>cancelRequests := cancelRequests s1 @ [pid],
             pool := pool_release cancelClient False (pool s1)\<rparr>)"

definition queryTimeoutCallback ::
  "nat \<Rightarrow> nat option \<Rightarrow> connect_choice \<Rightarrow> int \<Rightarrow> pool_manager \<Rightarrow> error option \<times> pool_manager" where
  "queryTimeoutCallback c currentClientProcessID choice now s =
     (case emit_error (DatabaseConnectionError ''Query timeout detected'') s of
        Inl e \<Rightarrow> (Some e, s)
      | Inr s1 \<Rightarrow>
          (let s2 = (case currentClientProcessID of
                       None \<Rightarrow> s1
                     | Some pid \<Rightarrow> if pid = 0 then s1 else cancelBackend pid choice s1)
           in (None,
               performClientRelease c
                 (Some (PlainError ''Query timed out after 10000ms. Cancellation attempted.''))
                 None now s2)))"

text \<open>The runtime fires a pending timer: it leaves the timer queue and its callback runs.\<close>

definition fireTimer :: "nat \<Rightarrow> connect_choice \<Rightarrow> int \<Rightarrow> pool_manager \<Rightarrow> pool_manager" where
  "fireTimer t choice now s =
     (case timers s t of
        None \<Rightarrow> s
      | Some (c, pid) \<Rightarrow> snd (queryTimeoutCallback c pid choice now (clearTimeout t s)))"

text \<open>
  The query wrapper that \<^verbatim>\<open>getConnection\<close> installs on the client, for lease
  \<open>a\<close>. Its synchronous part clears the timer held in the closure variable, starts a
  new timer for the client and its current process id, and stores the handle in the
  closure variable and in the lease's \<^verbatim>\<open>ConnectionTimestamp\<close>; then the original
  query runs. When the query's promise settles (resolved or rejected), the timer held in
  the closure variable at that moment is cleared.
\<close>

definition queryStart :: "nat \<Rightarrow> nat \<Rightarrow> pool_manager \<Rightarrow> pool_manager" where
  "queryStart c a s =
     (let s1 = clearTimeout_opt (currentQueryTimeoutTimer (leases s a)) s;
          t = nextTimer s1
      in s1\<lparr>timers := (timers s1)(t \<mapsto> (c, processID (clients s1 c))),
             nextTimer := Suc t,
             leases := (leases s1)(a := (leases s1 a)
                          \<lparr>queryTimeoutTimer := Some t,
                           currentQueryTimeoutTimer := Some t\<rparr>)\<rparr>)"

definition querySettle :: "nat \<Rightarrow> pool_manager \<Rightarrow> pool_manager" where
  "querySettle a s = clearTimeout_opt (currentQueryTimeoutTimer (leases s a)) s"

text \<open>\<^verbatim>\<open>client.query(...)\<close> is called and not yet settled.\<close>

definition issueQuery :: "nat \<Rightarrow> pool_manager \<Rightarrow> pool_manager" where
  "issueQuery c s = (case originalQuery (clients s c) of None \<Rightarrow> s | Some a \<Rightarrow> queryStart c a s)"

text \<open>
  \<^verbatim>\<open>await client.query(...)\<close> on client \<open>c\<close>, from the call to the settled
  promise. Without a wrapper the call is the driver's own, and no timer exists. Only
  the promise form of \<^verbatim>\<open>query\<close> is modelled, which is the one both managers
  use; for a call that passes a callback the wrapper gets no promise and clears the
  timer only on the client's \<^verbatim>\<open>'end'\<close> or \<^verbatim>\<open>'error'\<close> event, not when the
  query completes.
\<close>

definition clientQuery ::
  "nat \<Rightarrow> query_outcome \<Rightarrow> pool_manager \<Rightarrow> (error + unit) \<times> pool_manager" where
  "clientQuery c outcome s =
     (case originalQuery (clients s c) of
        None \<Rightarrow>
          (case outcome of
             QueryOk \<Rightarrow> (Inr (), s)
           | QueryFail m \<Rightarrow> (Inl (DriverError m), s)
           | QueryTimeout choice now m \<Rightarrow> (Inl (DriverError m), s))
      | Some a \<Rightarrow>
          (let t = nextTimer s;
               s1 = queryStart c a s
           in case outcome of
                QueryOk \<Rightarrow> (Inr (), querySettle a s1)
              | QueryFail m \<Rightarrow> (Inl (DriverError m), querySettle a s1)
              | QueryTimeout choice now m \<Rightarrow>
                  (Inl (DriverError m), querySettle a (fireTimer t choice now s1))))"

text \<open>
  What \<^verbatim>\<open>getConnection\<close> takes from its environment: the generated lease id, the
  clock at entry, what \<^verbatim>\<open>pool.connect()\<close> settles with and the clock then, how the
  two optional set-up statements settle, and the clock when a set-up statement has failed.
\<close>

record getConnection_env =
  gc_internalConnectionId :: string
  gc_acquisitionStartTime :: int
  gc_connect :: connect_choice
  gc_connectedTime :: int
  gc_isolationQuery :: query_outcome
  gc_readOnlyQuery :: query_outcome
  gc_failedTime :: int

text \<open>The \<^verbatim>\<open>catch\<close> block of \<^verbatim>\<open>getConnection\<close>.\<close>

definition getConnection_catch ::
  "error \<Rightarrow> getConnection_env \<Rightarrow> int \<Rightarrow> pool_manager \<Rightarrow> (error + nat) \<times> pool_manager" where
  "getConnection_catch e env now s =
     (let m = metrics s;
          m1 = addHistory Failed_acquire now (Some (gc_internalConnectionId env))
                 (Some (now - gc_acquisitionStartTime env)) (Some (message e))
                 (m\<lparr>failedAcquisitions := failedAcquisitions m + 1\<rparr>);
          s1 = s\<lparr>metrics := m1\<rparr>
      in case emit_error e s1 of
           Inl thrown \<Rightarrow> (Inl thrown, s1)
         | Inr s2 \<Rightarrow>
             (Inl (DatabaseConnectionError (''Failed to acquire connection: '' @ message e)), s2))"

text \<open>
  After a successful \<^verbatim>\<open>pool.connect()\<close>: the client gets the lease id, the
  counters and the history are updated, the lease is entered into
  \<^verbatim>\<open>connectionTimestamps\<close>, and the \<^verbatim>\<open>query\<close> and \<^verbatim>\<open>release\<close> wrappers
  are installed (with a new closure, whose timer variable is unset).
\<close>

definition registerLease ::
  "ConnectionOptions option \<Rightarrow> getConnection_env \<Rightarrow> nat \<Rightarrow> pool_manager \<Rightarrow> pool_manager" where
  "registerLease options env c s0 =
     (let internalConnectionId = gc_internalConnectionId env;
          acquisitionDurationMs = gc_connectedTime env - gc_acquisitionStartTime env;
          backendPID = processID (clients s0 c);
          m = metrics s0;
          active = activeLeasedConnections m + 1;
          m1 = m\<lparr>acquiredConnections := acquiredConnections m + 1,
                 activeLeasedConnections := active,
                 maxConcurrentLeasedConnections :=
                   (if active > maxConcurrentLeasedConnections m then active
                    else maxConcurrentLeasedConnections m)\<rparr>;
          a = nextLease s0
      in s0\<lparr>metrics := addHistory Acquired (gc_connectedTime env) (Some internalConnectionId)
                           (Some acquisitionDurationMs) None m1,
              leases := (leases s0)(a :=
                 \<lparr>acquiredAt = gc_acquisitionStartTime env, lease_options = options,
                  lease_processID = backendPID, queryTimeoutTimer = None,
                  currentQueryTimeoutTimer = None\<rparr>),
              nextLease := Suc a,
              connectionTimestamps := (connectionTimestamps s0)(internalConnectionId \<mapsto> a),
              clients := (clients s0)(c := (clients s0 c)
                 \<lparr>connectionId := Some internalConnectionId,
                  originalQuery := Some a,
                  originalRelease := True\<rparr>)\<rparr>)"

definition getConnection ::
  "ConnectionOptions option \<Rightarrow> getConnection_env \<Rightarrow> pool_manager
     \<Rightarrow> (error + nat) \<times> pool_manager" where
  "getConnection options env s =
     (case connect (gc_connect env) s of
        (Inl msg, s0) \<Rightarrow> getConnection_catch (DriverError msg) env (gc_connectedTime env) s0
      | (Inr c, s0) \<Rightarrow>
          (case (if isolationLevelOf options \<noteq> None
                 then clientQuery c (gc_isolationQuery env) (registerLease options env c s0)
                 else (Inr (), registerLease options env c s0)) of
             (Inl e, s2) \<Rightarrow> getConnection_catch e env (gc_failedTime env) s2
           | (Inr _, s2) \<Rightarrow>
               (case (if readOnlyOf options \<noteq> None
                      then clientQuery c (gc_readOnlyQuery env) s2 else (Inr (), s2)) of
                  (Inl e, s3) \<Rightarrow> getConnection_catch e env (gc_failedTime env) s3
                | (Inr _, s3) \<Rightarrow> (Inr c, s3))))"

text \<open>An \<^verbatim>\<open>'error'\<close> event of a leased client runs the listener of its lease.\<close>

definition clientErrorListener :: "nat \<Rightarrow> string \<Rightarrow> int \<Rightarrow> pool_manager \<Rightarrow> pool_manager" where
  "clientErrorListener c msg now s = performClientRelease c (Some (DriverError msg)) None now s"

definition resetMetrics :: "int \<Rightarrow> pool_manager \<Rightarrow> pool_manager" where
  "resetMetrics now s =
     (let oldMaxConcurrent = maxConcurrentLeasedConnections (metrics s)
      in s\<lparr>metrics := (initializeMetrics now)
              \<lparr>maxConcurrentLeasedConnections := oldMaxConcurrent,
               lastMetricsResetTime := Some now\<rparr>\<rparr>)"

text \<open>
  \<^verbatim>\<open>dispose()\<close> awaits \<^verbatim>\<open>pool.end()\<close> and then zeroes the counter and
  clears the table. It is taken as one step: calls that would run while
  \<^verbatim>\<open>pool.end()\<close> is pending are not interleaved with it.
\<close>

definition dispose :: "pool_manager \<Rightarrow> pool_manager" where
  "dispose s =
     s\<lparr>pool := pool_end (pool s),
       metrics := (metrics s)\<lparr>activeLeasedConnections := 0\<rparr>,
       connectionTimestamps := Map.empty,
       emitted := emitted s @ [Disposed]\<rparr>"

text \<open>
  The calls that reach one manager, each an atomic step: acquisitions, releases (through
  \<^verbatim>\<open>releaseConnection\<close> or the handle's own \<^verbatim>\<open>release\<close>), queries through a
  handle (awaited, or issued and settled as two steps), a fired timer, an error event of a client, a metrics reset, a new
  \<^verbatim>\<open>'error'\<close> listener, disposal.
\<close>

datatype pm_op =
    GetConnection "ConnectionOptions option" getConnection_env
  | ReleaseConnection nat "error option" "bool option" int
  | ClientQuery nat query_outcome
  | IssueQuery nat
  | SettleQuery nat
  | FireTimer nat connect_choice int
  | ClientError nat string int
  | ResetMetrics int
  | OnError
  | Dispose

fun pm_step :: "pm_op \<Rightarrow> pool_manager \<Rightarrow> pool_manager" where
  "pm_step (GetConnection options env) s = snd (getConnection options env s)"
| "pm_step (ReleaseConnection c err forceDiscard now) s = releaseConnection c err forceDiscard now s"
| "pm_step (ClientQuery c outcome) s = snd (clientQuery c outcome s)"
| "pm_step (IssueQuery c) s = issueQuery c s"
| "pm_step (SettleQuery a) s = querySettle a s"
| "pm_step (FireTimer t choice now) s = fireTimer t choice now s"
| "pm_step (ClientError c msg now) s = clientErrorListener c msg now s"
| "pm_step (ResetMetrics now) s = resetMetrics now s"
| "pm_step OnError s = onError s"
| "pm_step Dispose s = dispose s"

fun pm_run :: "pm_op list \<Rightarrow> pool_manager \<Rightarrow> pool_manager" where
  "pm_run [] s = s"
| "pm_run (op # ops) s = pm_run ops (pm_step op s)"

text \<open>
  Lease ids are generated from the clock and a random suffix; a run is \<open>fresh\<close> when
  every acquisition draws an id that no tracked lease is using at that moment.
\<close>

fun fresh_ids :: "pm_op list \<Rightarrow> pool_manager \<Rightarrow> bool" where
  "fresh_ids [] s = True"
| "fresh_ids (GetConnection options env # ops) s =
     (connectionTimestamps s (gc_internalConnectionId env) = None
      \<and> fresh_ids ops (pm_step (GetConnection options env) s))"
| "fresh_ids (op # ops) s = fresh_ids ops (pm_step op s)"

section \<open>TransactionManager: data\<close>

datatype txn_status = Active | Committed | Rolled_back | Failed

record txn_history_entry =
  transactionId :: string
  startTime :: int
  endTime :: "int option"
  duration :: "int option"
  status :: txn_status
  th_isolationLevel :: "string option"
  th_readOnly :: "bool option"
  th_error :: "string option"

record TransactionMetrics =
  totalTransactions :: int
  activeTransactions :: int
  completedTransactions :: int
  committedTransactions :: int
  rolledBackTransactions :: int
  failedTransactions :: int
  transactionDurations :: "int list"
  tx_lastMetricsResetTime :: int
  transactionHistory :: "txn_history_entry list"

record TransactionManager =
  client :: "nat option"
  isTransactionActive :: bool
  requestId :: string
  tx_metrics :: TransactionMetrics
  transactionStartTime :: "int option"
  currentTransactionOptions :: "ConnectionOptions option"

text \<open>
  A transaction manager holds a reference to the pool manager it was constructed with;
  its operations therefore act on the pair of the two states.
\<close>

type_synonym system = "TransactionManager \<times> pool_manager"

definition newTransactionManager :: "string \<Rightarrow> int \<Rightarrow> TransactionManager" where
  "newTransactionManager rid now =
     \<lparr>client = None, isTransactionActive = False, requestId = rid,
      tx_metrics = \<lparr>totalTransactions = 0, activeTransactions = 0, completedTransactions = 0,
                    committedTransactions = 0, rolledBackTransactions = 0,
                    failedTransactions = 0, transactionDurations = [],
                    tx_lastMetricsResetTime = now, transactionHistory = []\<rparr>,
      transactionStartTime = None, currentTransactionOptions = None\<rparr>"

section \<open>TransactionManager: operations\<close>

text \<open>\<^verbatim>\<open>xs.slice(-n)\<close>: the last \<open>n\<close> elements.\<close>

definition slice_last :: "nat \<Rightarrow> 'a list \<Rightarrow> 'a list" where
  "slice_last n xs = drop (length xs - n) xs"

text \<open>The history is cut to its last 100 entries once it holds more.\<close>

definition capHistory :: "txn_history_entry list \<Rightarrow> txn_history_entry list" where
  "capHistory h = (if length h > 100 then slice_last 100 h else h)"

text \<open>
  \<^verbatim>\<open>const e = xs.find(p); if (e) { ...mutate e... }\<close>: the first element that
  satisfies \<open>p\<close> is changed in place.
\<close>

fun update_first :: "('a \<Rightarrow> bool) \<Rightarrow> ('a \<Rightarrow> 'a) \<Rightarrow> 'a list \<Rightarrow> 'a list" where
  "update_first p f [] = []"
| "update_first p f (x # xs) = (if p x then f x # xs else x # update_first p f xs)"

text \<open>\<^verbatim>\<open>releaseClient()\<close>; the handle's \<^verbatim>\<open>release()\<close> is the wrapper installed by
  \<^verbatim>\<open>getConnection\<close>, called without arguments.\<close>

definition releaseClient :: "int \<Rightarrow> system \<Rightarrow> system" where
  "releaseClient now sys =
     (case sys of (tm, pm) \<Rightarrow>
        (case client tm of
           None \<Rightarrow> (tm, pm)
         | Some c \<Rightarrow>
             (let m = tx_metrics tm;
                  m1 = (if isTransactionActive tm
                        then m\<lparr>activeTransactions := max 0 (activeTransactions m - 1)\<rparr>
                        else m)
              in (tm\<lparr>tx_metrics := m1, client := None, isTransactionActive := False,
                     transactionStartTime := None\<rparr>,
                  performClientRelease c None None now pm))))"

record begin_env =
  bt_transactionId :: string
  bt_now :: int
  bt_getConnection :: getConnection_env
  bt_beginQuery :: query_outcome
  bt_isolationQuery :: query_outcome
  bt_readOnlyQuery :: query_outcome
  bt_failedTime :: int
  bt_releaseTime :: int

definition optIsolationLevel :: "ConnectionOptions option \<Rightarrow> string option" where
  "optIsolationLevel options = (case options of None \<Rightarrow> None | Some opts \<Rightarrow> isolationLevel opts)"

text \<open>The \<^verbatim>\<open>catch\<close> block of \<^verbatim>\<open>beginTransaction\<close>.\<close>

definition beginTransaction_catch :: "error \<Rightarrow> begin_env \<Rightarrow> system \<Rightarrow> (error + unit) \<times> system" where
  "beginTransaction_catch e env sys =
     (case sys of (tm, pm) \<Rightarrow>
        (let m = tx_metrics tm;
             m1 = m\<lparr>failedTransactions := failedTransactions m + 1,
                    transactionHistory :=
                      update_first (\<lambda>t. transactionId t = bt_transactionId env)
                        (\<lambda>t. t\<lparr>status := Failed, endTime := Some (bt_failedTime env),
                               duration := Some (bt_failedTime env - startTime t),
                               th_error := Some (message e)\<rparr>)
                        (transactionHistory m)\<rparr>;
             tm1 = tm\<lparr>tx_metrics := m1\<rparr>
         in (Inl e, if client tm1 \<noteq> None then releaseClient (bt_releaseTime env) (tm1, pm)
                    else (tm1, pm))))"

definition beginTransaction ::
  "ConnectionOptions option \<Rightarrow> begin_env \<Rightarrow> system \<Rightarrow> (error + unit) \<times> system" where
  "beginTransaction options env sys =
     (case sys of (tm0, pm) \<Rightarrow>
        (let txid = bt_transactionId env;
             tm = tm0\<lparr>requestId := txid, currentTransactionOptions := options\<rparr>;
             m = tx_metrics tm
         in if isTransactionActive tm
            then (Inl (OrmError ''Transaction already in progress''),
                  (tm\<lparr>tx_metrics := m
                        \<lparr>failedTransactions := failedTransactions m + 1,
                         transactionHistory := capHistory (transactionHistory m @
                           [\<lparr>transactionId = txid, startTime = bt_now env, endTime = None,
                             duration = None, status = Failed,
                             th_isolationLevel = optIsolationLevel options,
                             th_readOnly = readOnlyOf options,
                             th_error = Some ''Transaction already in progress''\<rparr>])\<rparr>\<rparr>,
                   pm))
            else
              (let tm1 = tm\<lparr>transactionStartTime := Some (bt_now env),
                            tx_metrics := m\<lparr>totalTransactions := totalTransactions m + 1\<rparr>\<rparr>
               in case getConnection options (bt_getConnection env) pm of
                    (Inl e, pm1) \<Rightarrow> beginTransaction_catch e env (tm1, pm1)
                  | (Inr c, pm1) \<Rightarrow>
                      (let tm2 = tm1\<lparr>client := Some c\<rparr>
                       in case clientQuery c (bt_beginQuery env) pm1 of
                            (Inl e, pm2) \<Rightarrow> beginTransaction_catch e env (tm2, pm2)
                          | (Inr _, pm2) \<Rightarrow>
                              (case (if isolationLevelOf options \<noteq> None
                                     then clientQuery c (bt_isolationQuery env) pm2
                                     else (Inr (), pm2)) of
                                 (Inl e, pm3) \<Rightarrow> beginTransaction_catch e env (tm2, pm3)
                               | (Inr _, pm3) \<Rightarrow>
                                   (case (if readOnlyOf options \<noteq> None
                                          then clientQuery c (bt_readOnlyQuery env) pm3
                                          else (Inr (), pm3)) of
                                      (Inl e, pm4) \<Rightarrow> beginTransaction_catch e env (tm2, pm4)
                                    | (Inr _, pm4) \<Rightarrow>
                                        (let m2 = tx_metrics tm2
                                         in (Inr (),
                                             (tm2\<lparr>isTransactionActive := True,
                                                  tx_metrics := m2
                                                    \<lparr>activeTransactions := activeTransactions m2 + 1,
                                                     transactionHistory :=
                                                       capHistory (transactionHistory m2 @
                                                         [\<lparr>transactionId = txid,
                                                           startTime = bt_now env,
                                                           endTime = None, duration = None,
                                                           status = Active,
                                                           th_isolationLevel = optIsolationLevel options,
                                                           th_readOnly = readOnlyOf options,
                                                           th_error = None\<rparr>])\<rparr>\<rparr>,
                                              pm4)))))))))"

record end_env =
  en_query :: query_outcome
  en_now :: int
  en_releaseTime :: int

text \<open>
  What \<^verbatim>\<open>commit\<close> and \<^verbatim>\<open>rollback\<close> write into the history entry found under
  \<^verbatim>\<open>this.requestId\<close>: status, end time, the error text on failure, and the duration
  when \<^verbatim>\<open>this.transactionStartTime\<close> is set.
\<close>

definition markEnded ::
  "txn_status \<Rightarrow> string option \<Rightarrow> int \<Rightarrow> bool \<Rightarrow> txn_history_entry \<Rightarrow> txn_history_entry" where
  "markEnded st err now withDuration t =
     (let t1 = t\<lparr>status := st, endTime := Some now\<rparr>;
          t2 = (case err of None \<Rightarrow> t1 | Some m \<Rightarrow> t1\<lparr>th_error := Some m\<rparr>)
      in if withDuration then t2\<lparr>duration := Some (now - startTime t2)\<rparr> else t2)"

definition commit :: "end_env \<Rightarrow> system \<Rightarrow> (error + unit) \<times> system" where
  "commit env sys =
     (case sys of (tm, pm) \<Rightarrow>
        (case (if isTransactionActive tm then client tm else None) of
           None \<Rightarrow>
             (Inl (OrmError ''No active transaction to commit''),
              (tm\<lparr>tx_metrics := (tx_metrics tm)
                    \<lparr>failedTransactions := failedTransactions (tx_metrics tm) + 1\<rparr>\<rparr>, pm))
         | Some c \<Rightarrow>
             (let m = tx_metrics tm;
                  found = find (\<lambda>t. transactionId t = requestId tm) (transactionHistory m);
                  timed = (transactionStartTime tm \<noteq> None)
              in case clientQuery c (en_query env) pm of
                   (Inr _, pm1) \<Rightarrow>
                     (let m1 = m\<lparr>committedTransactions := committedTransactions m + 1,
                                 completedTransactions := completedTransactions m + 1,
                                 transactionHistory :=
                                   update_first (\<lambda>t. transactionId t = requestId tm)
                                     (markEnded Committed None (en_now env) timed)
                                     (transactionHistory m)\<rparr>;
                          m2 = (case found of
                                  None \<Rightarrow> m1
                                | Some t \<Rightarrow>
                                    if timed
                                    then (let ds = transactionDurations m1 @ [en_now env - startTime t]
                                          in m1\<lparr>transactionDurations :=
                                                  (if length ds > 1000 then slice_last 1000 ds else ds)\<rparr>)
                                    else m1)
                      in (Inr (), releaseClient (en_releaseTime env) (tm\<lparr>tx_metrics := m2\<rparr>, pm1)))
                 | (Inl e, pm1) \<Rightarrow>
                     (let m1 = m\<lparr>transactionHistory :=
                                   update_first (\<lambda>t. transactionId t = requestId tm)
                                     (markEnded Failed (Some (''Commit failed: '' @ message e))
                                        (en_now env) timed)
                                     (transactionHistory m)\<rparr>
                      in (Inl e, releaseClient (en_releaseTime env) (tm\<lparr>tx_metrics := m1\<rparr>, pm1))))))"

definition rollback :: "end_env \<Rightarrow> system \<Rightarrow> (error + unit) \<times> system" where
  "rollback env sys =
     (case sys of (tm, pm) \<Rightarrow>
        (case (if isTransactionActive tm then client tm else None) of
           None \<Rightarrow> (Inr (), (tm, pm))
         | Some c \<Rightarrow>
             (let m = tx_metrics tm;
                  found = find (\<lambda>t. transactionId t = requestId tm) (transactionHistory m);
                  timed = (transactionStartTime tm \<noteq> None)
              in case clientQuery c (en_query env) pm of
                   (Inr _, pm1) \<Rightarrow>
                     (let m1 = m\<lparr>rolledBackTransactions := rolledBackTransactions m + 1,
                                 completedTransactions := completedTransactions m + 1,
                                 transactionHistory :=
                                   update_first (\<lambda>t. transactionId t = requestId tm)
                                     (markEnded Rolled_back None (en_now env) timed)
                                     (transactionHistory m)\<rparr>;
                          m2 = (case found of
                                  None \<Rightarrow> m1
                                | Some t \<Rightarrow>
                                    if timed
                                    then m1\<lparr>transactionDurations :=
                                              transactionDurations m1 @ [en_now env - startTime t]\<rparr>
                                    else m1)
                      in (Inr (), releaseClient (en_releaseTime env) (tm\<lparr>tx_metrics := m2\<rparr>, pm1)))
                 | (Inl e, pm1) \<Rightarrow>
                     (let m1 = m\<lparr>transactionHistory :=
                                   update_first (\<lambda>t. transactionId t = requestId tm)
                                     (markEnded Failed (Some (''Rollback failed: '' @ message e))
                                        (en_now env) timed)
                                     (transactionHistory m)\<rparr>
                      in (Inl e, releaseClient (en_releaseTime env) (tm\<lparr>tx_metrics := m1\<rparr>, pm1))))))"

definition getClient :: "system \<Rightarrow> error + nat" where
  "getClient sys =
     (case sys of (tm, pm) \<Rightarrow>
        (case (if isTransactionActive tm then client tm else None) of
           None \<Rightarrow> Inl (OrmError ''No active transaction client'')
         | Some c \<Rightarrow> Inr c))"

definition tx_resetMetrics :: "int \<Rightarrow> system \<Rightarrow> system" where
  "tx_resetMetrics now sys =
     (case sys of (tm, pm) \<Rightarrow>
        (tm\<lparr>tx_metrics :=
              \<lparr>totalTransactions = 0,
               activeTransactions = activeTransactions (tx_metrics tm),
               completedTransactions = 0, committedTransactions = 0,
               rolledBackTransactions = 0, failedTransactions = 0,
               transactionDurations = [], tx_lastMetricsResetTime = now,
               transactionHistory =
                 filter (\<lambda>t. status t = Active) (transactionHistory (tx_metrics tm))\<rparr>\<rparr>,
         pm))"

text \<open>The calls on one transaction manager, each an atomic step; a thrown error ends
  the call and leaves the state the call had reached.\<close>

datatype tm_op =
    Begin "ConnectionOptions option" begin_env
  | Commit end_env
  | Rollback end_env
  | TxResetMetrics int

fun tm_step :: "tm_op \<Rightarrow> system \<Rightarrow> system" where
  "tm_step (Begin options env) sys = snd (beginTransaction options env sys)"
| "tm_step (Commit env) sys = snd (commit env sys)"
| "tm_step (Rollback env) sys = snd (rollback env sys)"
| "tm_step (TxResetMetrics now) sys = tx_resetMetrics now sys"

fun tm_run :: "tm_op list \<Rightarrow> system \<Rightarrow> system" where
  "tm_run [] sys = sys"
| "tm_run (op # ops) sys = tm_run ops (tm_step op sys)"

section \<open>Notions used in the statements and proofs\<close>

text \<open>The consistency of the transaction counters that the code maintains.\<close>

definition counts_consistent :: "TransactionManager \<Rightarrow> bool" where
  "counts_consistent tm =
     (committedTransactions (tx_metrics tm) + rolledBackTransactions (tx_metrics tm)
        = completedTransactions (tx_metrics tm))"

text \<open>A client is tracked when it carries a lease id that is a key of
  \<^verbatim>\<open>connectionTimestamps\<close>.\<close>

definition is_tracked :: "nat \<Rightarrow> pool_manager \<Rightarrow> bool" where
  "is_tracked c s =
     (case connectionId (clients s c) of
        None \<Rightarrow> False
      | Some i \<Rightarrow> connectionTimestamps s i \<noteq> None)"

text \<open>
  The invariant of the pool manager's bookkeeping, for a pool of at most \<open>M\<close>
  connections: the pool holds at most \<open>M\<close> clients, each checked out or idle; the
  counter is not negative; after disposal the counter is 0 and the table empty; before
  it, every client that carries a lease id is checked out and its id is in the table, no
  two clients carry the same id, and the counter does not exceed the number of clients
  that carry an id.
\<close>

definition tracked_clients :: "pool_manager \<Rightarrow> nat set" where
  "tracked_clients s = {r. connectionId (clients s r) \<noteq> None}"

definition pool_inv :: "pg_pool \<Rightarrow> bool" where
  "pool_inv p =
     (length (pool_leased p) + length (pool_idle p) \<le> pool_max p
      \<and> (\<forall>r \<in> set (pool_leased p) \<union> set (pool_idle p). r < pool_nextClient p)
      \<and> set (pool_leased p) \<inter> set (pool_idle p) = {})"

definition pm_inv :: "nat \<Rightarrow> pool_manager \<Rightarrow> bool" where
  "pm_inv M s =
     (0 \<le> activeLeasedConnections (metrics s)
      \<and> pool_max (pool s) = M
      \<and> pool_inv (pool s)
      \<and> (if pool_ended (pool s)
          then activeLeasedConnections (metrics s) = 0 \<and> connectionTimestamps s = Map.empty
          else (\<forall>r i. connectionId (clients s r) = Some i \<longrightarrow>
                   r \<in> set (pool_leased (pool s)) \<and> connectionTimestamps s i \<noteq> None)
             \<and> (\<forall>r r' i. connectionId (clients s r) = Some i \<and> connectionId (clients s r') = Some i
                   \<longrightarrow> r = r')
             \<and> activeLeasedConnections (metrics s) \<le> int (card (tracked_clients s))))"

text \<open>
  The invariant of the timers, while the manager is not disposed: every pending timer was
  started by the wrapper that is installed on its client and is the one held in that
  wrapper's closure variable and recorded in the lease; a client with a wrapper has its
  original release stored and is tracked under the wrapper's lease; no two clients have
  the wrapper of one lease; and a tracked client has the wrapper of its lease.
\<close>

definition timer_inv :: "pool_manager \<Rightarrow> bool" where
  "timer_inv s =
     (\<not> pool_ended (pool s) \<longrightarrow>
        (\<forall>t c pid. timers s t = Some (c, pid) \<longrightarrow>
            t < nextTimer s
            \<and> (\<exists>a. originalQuery (clients s c) = Some a
                   \<and> currentQueryTimeoutTimer (leases s a) = Some t
                   \<and> queryTimeoutTimer (leases s a) = Some t))
      \<and> (\<forall>c a. originalQuery (clients s c) = Some a \<longrightarrow>
            a < nextLease s \<and> originalRelease (clients s c)
            \<and> (\<exists>i. connectionId (clients s c) = Some i \<and> connectionTimestamps s i = Some a))
      \<and> (\<forall>c c' a. originalQuery (clients s c) = Some a \<and> originalQuery (clients s c') = Some a
            \<longrightarrow> c = c')
      \<and> (\<forall>c i a. connectionId (clients s c) = Some i \<and> connectionTimestamps s i = Some a
            \<longrightarrow> originalQuery (clients s c) = Some a))"

text \<open>
  The part of the bookkeeping that does not depend on how the lease ids are drawn: the
  counter is not negative, the pool holds each of its clients once, and a client on which
  \<^verbatim>\<open>_originalRelease\<close> is stored is checked out of the pool.
\<close>

definition basic_inv :: "pool_manager \<Rightarrow> bool" where
  "basic_inv s =
     (0 \<le> activeLeasedConnections (metrics s)
      \<and> pool_inv (pool s)
      \<and> (\<forall>c. originalRelease (clients s c) \<longrightarrow> c \<in> set (pool_leased (pool s))))"

text \<open>
  \<^verbatim>\<open>performClientRelease\<close> has no \<^verbatim>\<open>throw\<close> and no
  \<^verbatim>\<open>try\<close> of its own; the one call in it that can throw is the stored
  \<^verbatim>\<open>pg\<close> release, which \<^verbatim>\<open>pg\<close> rejects (``Release called on client
  which has already been released to the pool'') for a client that is not checked out.
  Restoring the query and the bookkeeping before that call change neither the stored
  release nor the pool, so whether the call throws is decided by the state at entry.
\<close>

definition release_throws :: "nat \<Rightarrow> pool_manager \<Rightarrow> bool" where
  "release_throws c s = (originalRelease (clients s c) \<and> c \<notin> set (pool_leased (pool s)))"

section \<open>Concrete inputs\<close>

definition example_gc_env :: getConnection_env where
  "example_gc_env =
     \<lparr>gc_internalConnectionId = ''conn_1'', gc_acquisitionStartTime = 1000,
      gc_connect = ConnectNew (Some 4242), gc_connectedTime = 1005,
      gc_isolationQuery = QueryOk, gc_readOnlyQuery = QueryOk, gc_failedTime = 1010\<rparr>"

definition example_begin_env :: begin_env where
  "example_begin_env =
     \<lparr>bt_transactionId = ''txn_1'', bt_now = 1000, bt_getConnection = example_gc_env,
      bt_beginQuery = QueryOk, bt_isolationQuery = QueryOk, bt_readOnlyQuery = QueryOk,
      bt_failedTime = 1020, bt_releaseTime = 1021\<rparr>"

definition example_end_env :: end_env where
  "example_end_env = \<lparr>en_query = QueryOk, en_now = 2000, en_releaseTime = 2001\<rparr>"

text \<open>A new transaction manager on a new pool manager of at most two connections.\<close>

definition idle_system :: system where
  "idle_system = (newTransactionManager ''txn_0'' 0, newConnectionPoolManager (Some 2) 0)"

text \<open>The same after one successful \<^verbatim>\<open>beginTransaction()\<close>.\<close>

definition active_system :: system where
  "active_system = tm_step (Begin None example_begin_env) idle_system"

text \<open>A second \<^verbatim>\<open>beginTransaction()\<close>, with its own generated id.\<close>

definition rejected_begin_env :: begin_env where
  "rejected_begin_env = example_begin_env\<lparr>bt_transactionId := ''txn_2'', bt_now := 1500\<rparr>"

text \<open>\<^verbatim>\<open>pool.connect()\<close> fails.\<close>

definition failing_connect_env :: begin_env where
  "failing_connect_env =
     example_begin_env\<lparr>bt_getConnection :=
       example_gc_env\<lparr>gc_connect := ConnectFail ''timeout exceeded when trying to connect''\<rparr>\<rparr>"

text \<open>The set-up statement issued inside \<^verbatim>\<open>getConnection\<close> is rejected.\<close>

definition failing_setup_env :: begin_env where
  "failing_setup_env =
     example_begin_env\<lparr>bt_getConnection :=
       example_gc_env\<lparr>gc_isolationQuery := QueryFail ''syntax error at or near REPEATABLE_READ''\<rparr>\<rparr>"

text \<open>\<^verbatim>\<open>BEGIN\<close> is rejected.\<close>

definition failing_begin_env :: begin_env where
  "failing_begin_env = example_begin_env\<lparr>bt_beginQuery := QueryFail ''connection reset''\<rparr>"

text \<open>\<^verbatim>\<open>DatabaseIsolationLevel.REPEATABLE_READ\<close>, whose value is spelt with an underscore.\<close>

definition repeatable_read :: "ConnectionOptions option" where
  "repeatable_read = Some \<lparr>isolationLevel = Some ''REPEATABLE_READ'', readOnly = None\<rparr>"

text \<open>Two further acquisitions; with the pool of two, the third cannot be served.\<close>

definition second_gc_env :: getConnection_env where
  "second_gc_env =
     example_gc_env\<lparr>gc_internalConnectionId := ''conn_2'', gc_acquisitionStartTime := 1100,
                     gc_connect := ConnectNew (Some 4243), gc_connectedTime := 1101\<rparr>"

definition third_gc_env :: getConnection_env where
  "third_gc_env =
     example_gc_env\<lparr>gc_internalConnectionId := ''conn_3'', gc_acquisitionStartTime := 1200,
                     gc_connect := ConnectNew (Some 4244), gc_connectedTime := 9200\<rparr>"

definition example_ops :: "pm_op list" where
  "example_ops =
     [GetConnection None example_gc_env, GetConnection None second_gc_env,
      GetConnection None third_gc_env, ReleaseConnection 0 None None 9300,
      ReleaseConnection 0 None None 9301]"

text \<open>A new manager, as the constructor leaves it (no \<^verbatim>\<open>'error'\<close> listener), after
  one acquisition and one query issued through the handle and still running.\<close>

definition pending_query_manager :: pool_manager where
  "pending_query_manager =
     pm_run [GetConnection None example_gc_env, IssueQuery 0]
       (newConnectionPoolManager (Some 2) 0)"

text \<open>The same, with an \<^verbatim>\<open>'error'\<close> listener registered first.\<close>

definition listening_manager :: pool_manager where
  "listening_manager =
     pm_run [OnError, GetConnection None example_gc_env, IssueQuery 0]
       (newConnectionPoolManager (Some 2) 0)"

text \<open>An acquisition that draws the lease id \<^verbatim>\<open>conn_1\<close> again (same
  millisecond, same random suffix) while the first lease is still tracked.\<close>

definition colliding_gc_env :: getConnection_env where
  "colliding_gc_env = example_gc_env\<lparr>gc_connect := ConnectNew (Some 4243)\<rparr>"

text \<open>Two leases under one id; the second client is released, then the first; both
  clients are leased again from the idle list, under new ids.\<close>

definition collision_ops :: "pm_op list" where
  "collision_ops =
     [GetConnection None example_gc_env, GetConnection None colliding_gc_env,
      ReleaseConnection 1 None None 2000, ReleaseConnection 0 None None 2001,
      GetConnection None (second_gc_env\<lparr>gc_connect := ConnectIdle 0\<rparr>),
      GetConnection None (third_gc_env\<lparr>gc_connect := ConnectIdle 1\<rparr>)]"

text \<open>A client is leased and released, and the pool then hands the same client to a
  second caller, under a new lease id.\<close>

definition released_twice_manager :: pool_manager where
  "released_twice_manager =
     pm_run [GetConnection None example_gc_env, ReleaseConnection 0 None None 2000,
             GetConnection None (second_gc_env\<lparr>gc_connect := ConnectIdle 0\<rparr>)]
       (newConnectionPoolManager (Some 2) 0)"

text \<open>Two leases under one id, and a query running on the first client.\<close>

definition colliding_query_manager :: pool_manager where
  "colliding_query_manager =
     pm_run [GetConnection None example_gc_env, GetConnection None colliding_gc_env, IssueQuery 0]
       (newConnectionPoolManager (Some 2) 0)"

section \<open>Properties of the TransactionManager\<close>

lemmas example_defs =
  example_gc_env_def example_begin_env_def example_end_env_def idle_system_def
  active_system_def rejected_begin_env_def failing_connect_env_def failing_setup_env_def
  failing_begin_env_def repeatable_read_def second_gc_env_def third_gc_env_def
  example_ops_def pending_query_manager_def listening_manager_def colliding_gc_env_def
  collision_ops_def released_twice_manager_def colliding_query_manager_def

lemmas evaluation_defs =
  newConnectionPoolManager_def newTransactionManager_def beginTransaction_def
  getConnection_def connect_def pool_connect_def maxConnections_def clientQuery_def
  queryStart_def querySettle_def clearTimeout_opt_def clearTimeout_def addHistory_def
  isolationLevelOf_def readOnlyOf_def new_client_def capHistory_def optIsolationLevel_def
  Let_def initializeMetrics_def beginTransaction_catch_def getConnection_catch_def
  emit_error_def releaseClient_def performClientRelease_def pool_release_def
  emitConnectionStatus_def restoreOriginalQuery_def callOriginalRelease_def
  clearLeaseTimer_def recordRelease_def registerLease_def issueQuery_def fireTimer_def
  queryTimeoutCallback_def cancelBackend_def releaseConnection_def onError_def

lemma active_system_tm:
  "fst active_system =
     \<lparr>client = Some 0, isTransactionActive = True, requestId = ''txn_1'',
      tx_metrics = \<lparr>totalTransactions = 1, activeTransactions = 1, completedTransactions = 0,
                    committedTransactions = 0, rolledBackTransactions = 0,
                    failedTransactions = 0, transactionDurations = [],
                    tx_lastMetricsResetTime = 0,
                    transactionHistory =
                      [\<lparr>transactionId = ''txn_1'', startTime = 1000, endTime = None,
                        duration = None, status = Active, th_isolationLevel = None,
                        th_readOnly = None, th_error = None\<rparr>]\<rparr>,
      transactionStartTime = Some 1000, currentTransactionOptions = None\<rparr>"
  by (simp add: example_defs evaluation_defs)

subsection \<open>Counters\<close>

lemma releaseClient_counts:
  "counts_consistent (fst (releaseClient now (tm, pm))) = counts_consistent tm"
  by (simp add: releaseClient_def counts_consistent_def Let_def split: option.splits)

lemma catch_counts:
  "counts_consistent (fst (snd (beginTransaction_catch e env (tm, pm)))) = counts_consistent tm"
  by (simp add: beginTransaction_catch_def Let_def counts_consistent_def releaseClient_def
      split: option.splits)

lemma begin_counts:
  "counts_consistent (fst sys) \<Longrightarrow> counts_consistent (fst (snd (beginTransaction options env sys)))"
  by (cases sys)
     (simp add: beginTransaction_def Let_def catch_counts split: prod.splits sum.splits,
      simp add: counts_consistent_def)

lemma commit_counts:
  "counts_consistent (fst sys) \<Longrightarrow> counts_consistent (fst (snd (commit env sys)))"
  by (cases sys)
     (simp add: commit_def Let_def releaseClient_counts split: prod.splits sum.splits option.splits,
      auto simp add: counts_consistent_def)

lemma rollback_counts:
  "counts_consistent (fst sys) \<Longrightarrow> counts_consistent (fst (snd (rollback env sys)))"
  by (cases sys)
     (simp add: rollback_def Let_def releaseClient_counts split: prod.splits sum.splits option.splits,
      auto simp add: counts_consistent_def)

lemma reset_counts: "counts_consistent (fst (tx_resetMetrics now sys))"
  by (cases sys) (simp add: tx_resetMetrics_def counts_consistent_def)

lemma step_counts: "counts_consistent (fst sys) \<Longrightarrow> counts_consistent (fst (tm_step op sys))"
  by (cases op) (simp_all add: begin_counts commit_counts rollback_counts reset_counts)

lemma run_counts: "counts_consistent (fst sys) \<Longrightarrow> counts_consistent (fst (tm_run ops sys))"
  by (induction ops arbitrary: sys) (simp_all add: step_counts)

text \<open>
  C2, as stated, fails: \<^verbatim>\<open>commit()\<close> on a new manager throws and counts a failed
  transaction, and nothing is counted as completed; the three counters then sum to 1 and
  \<open>completedTransactions\<close> is 0.
\<close>

theorem failed_not_counted_as_completed_counterexample:
  "committedTransactions (tx_metrics (fst (tm_run [Commit example_end_env] idle_system)))
   + rolledBackTransactions (tx_metrics (fst (tm_run [Commit example_end_env] idle_system)))
   + failedTransactions (tx_metrics (fst (tm_run [Commit example_end_env] idle_system)))
   \<noteq> completedTransactions (tx_metrics (fst (tm_run [Commit example_end_env] idle_system)))"
  by (simp add: idle_system_def commit_def newTransactionManager_def)

text \<open>
  C2, amended: after any sequence of completed \<^verbatim>\<open>beginTransaction\<close>,
  \<^verbatim>\<open>commit\<close>, \<^verbatim>\<open>rollback\<close> (and \<^verbatim>\<open>resetMetrics\<close>) calls on a new
  transaction manager, \<open>committedTransactions + rolledBackTransactions =
  completedTransactions\<close>. The equation does not involve \<open>failedTransactions\<close>.
\<close>

theorem completed_is_committed_plus_rolled_back:
  "committedTransactions (tx_metrics (fst (tm_run ops (newTransactionManager rid now, pm))))
   + rolledBackTransactions (tx_metrics (fst (tm_run ops (newTransactionManager rid now, pm))))
   = completedTransactions (tx_metrics (fst (tm_run ops (newTransactionManager rid now, pm))))"
  using run_counts [of "(newTransactionManager rid now, pm)" ops]
  by (simp add: counts_consistent_def newTransactionManager_def)

subsection \<open>Calls on an idle manager\<close>

text \<open>
  C8. On a manager with no active transaction, \<^verbatim>\<open>rollback()\<close> returns normally and
  changes nothing: no counter, no history entry, no duration, and nothing of the pool
  manager.
\<close>

theorem rollback_idle_is_noop:
  "\<not> isTransactionActive tm \<Longrightarrow> rollback env (tm, pm) = (Inr (), (tm, pm))"
  by (simp add: rollback_def)

theorem rollback_idle_is_noop_witness:
  "\<not> isTransactionActive (fst idle_system)
   \<and> rollback example_end_env (fst idle_system, snd idle_system)
       = (Inr (), (fst idle_system, snd idle_system))"
  using rollback_idle_is_noop [of "fst idle_system" example_end_env "snd idle_system"]
  by (simp add: idle_system_def newTransactionManager_def)

text \<open>
  C9. On a manager with no active transaction, \<^verbatim>\<open>commit()\<close> throws the
  no-active-transaction error and adds one to \<open>failedTransactions\<close> (nothing else
  changes), whereas \<^verbatim>\<open>rollback()\<close> in the same state changes nothing.
\<close>

theorem commit_idle_counts_failure:
  "\<not> isTransactionActive tm \<Longrightarrow>
     commit env (tm, pm) =
       (Inl (OrmError ''No active transaction to commit''),
        (tm\<lparr>tx_metrics := (tx_metrics tm)
              \<lparr>failedTransactions := failedTransactions (tx_metrics tm) + 1\<rparr>\<rparr>, pm))
     \<and> failedTransactions (tx_metrics (fst (snd (commit env (tm, pm)))))
         = failedTransactions (tx_metrics tm) + 1
     \<and> rollback env' (tm, pm) = (Inr (), (tm, pm))"
  by (simp add: commit_def rollback_def)

theorem commit_idle_counts_failure_witness:
  "\<not> isTransactionActive (fst idle_system)
   \<and> fst (commit example_end_env (fst idle_system, snd idle_system))
       = Inl (OrmError ''No active transaction to commit'')
   \<and> failedTransactions (tx_metrics (fst (snd (commit example_end_env (fst idle_system, snd idle_system)))))
       = 1
   \<and> rollback example_end_env (fst idle_system, snd idle_system)
       = (Inr (), (fst idle_system, snd idle_system))"
  using commit_idle_counts_failure
          [of "fst idle_system" example_end_env "snd idle_system" example_end_env]
  by (simp add: idle_system_def newTransactionManager_def)

subsection \<open>Beginning a transaction\<close>




lemma update_first_no_match: "\<forall>x \<in> set xs. \<not> p x \<Longrightarrow> update_first p f xs = xs"
  by (induction xs) simp_all

lemma catch_leaves_idle:
  assumes "\<not> isTransactionActive tm"
    and "\<forall>t \<in> set (transactionHistory (tx_metrics tm)). transactionId t \<noteq> bt_transactionId env"
  shows "client (fst (snd (beginTransaction_catch e env (tm, pm)))) = None
       \<and> \<not> isTransactionActive (fst (snd (beginTransaction_catch e env (tm, pm))))
       \<and> transactionHistory (tx_metrics (fst (snd (beginTransaction_catch e env (tm, pm)))))
           = transactionHistory (tx_metrics tm)
       \<and> failedTransactions (tx_metrics (fst (snd (beginTransaction_catch e env (tm, pm)))))
           = failedTransactions (tx_metrics tm) + 1"
  using assms
  by (cases "client tm")
     (simp_all add: beginTransaction_catch_def Let_def update_first_no_match releaseClient_def)

text \<open>
  Whenever \<^verbatim>\<open>beginTransaction()\<close> fails on an idle manager (under an id that no
  history entry carries yet), the manager is idle afterwards, the failure is counted, and
  the history is exactly what it was: no entry is marked \<open>failed\<close>.
\<close>

lemma failed_begin_leaves_history:
  assumes idle: "\<not> isTransactionActive tm"
    and new: "\<forall>t \<in> set (transactionHistory (tx_metrics tm)). transactionId t \<noteq> bt_transactionId env"
    and fails: "fst (beginTransaction options env (tm, pm)) = Inl e"
  shows "client (fst (snd (beginTransaction options env (tm, pm)))) = None
       \<and> \<not> isTransactionActive (fst (snd (beginTransaction options env (tm, pm))))
       \<and> transactionHistory (tx_metrics (fst (snd (beginTransaction options env (tm, pm)))))
           = transactionHistory (tx_metrics tm)
       \<and> failedTransactions (tx_metrics (fst (snd (beginTransaction options env (tm, pm)))))
           = failedTransactions (tx_metrics tm) + 1"
proof -
  let ?tm1 = "tm\<lparr>requestId := bt_transactionId env, currentTransactionOptions := options,
                  transactionStartTime := Some (bt_now env),
                  tx_metrics := (tx_metrics tm)\<lparr>totalTransactions := totalTransactions (tx_metrics tm) + 1\<rparr>\<rparr>"
  have c1: "client (fst (snd (beginTransaction_catch e' env (?tm1\<lparr>client := cl\<rparr>, pm')))) = None
       \<and> \<not> isTransactionActive (fst (snd (beginTransaction_catch e' env (?tm1\<lparr>client := cl\<rparr>, pm'))))
       \<and> transactionHistory (tx_metrics (fst (snd (beginTransaction_catch e' env (?tm1\<lparr>client := cl\<rparr>, pm')))))
           = transactionHistory (tx_metrics tm)
       \<and> failedTransactions (tx_metrics (fst (snd (beginTransaction_catch e' env (?tm1\<lparr>client := cl\<rparr>, pm')))))
           = failedTransactions (tx_metrics tm) + 1" for e' pm' cl
    using catch_leaves_idle [of "?tm1\<lparr>client := cl\<rparr>" env e' pm'] idle new by simp
  have c0: "client (fst (snd (beginTransaction_catch e' env (?tm1, pm')))) = None
       \<and> \<not> isTransactionActive (fst (snd (beginTransaction_catch e' env (?tm1, pm'))))
       \<and> transactionHistory (tx_metrics (fst (snd (beginTransaction_catch e' env (?tm1, pm')))))
           = transactionHistory (tx_metrics tm)
       \<and> failedTransactions (tx_metrics (fst (snd (beginTransaction_catch e' env (?tm1, pm')))))
           = failedTransactions (tx_metrics tm) + 1" for e' pm'
    using catch_leaves_idle [of ?tm1 env e' pm'] idle new by simp
  show ?thesis
    using idle fails c0 c1
    by (auto simp add: beginTransaction_def Let_def split: prod.splits sum.splits if_splits)
qed

text \<open>
  C3 at failing inputs, on a new manager. When \<^verbatim>\<open>pool.connect()\<close> fails, and when
  \<^verbatim>\<open>BEGIN\<close> is rejected, the call throws and the manager is idle, but the history
  stays empty: the entry that the \<^verbatim>\<open>catch\<close> block looks up is only pushed once
  the set-up has succeeded, so nothing is marked \<open>failed\<close> (only the counter moves).
  When the statement that \<^verbatim>\<open>getConnection\<close> itself issues for the isolation level
  is rejected, the client just acquired is never released: it stays checked out of the
  pool, tracked and counted as an active lease, and the transaction manager holds no
  reference to it.
\<close>

theorem begin_failure_not_in_history:
  "(case beginTransaction None failing_connect_env idle_system of
      (r, tm, pm) \<Rightarrow>
        r = Inl (DriverError ''timeout exceeded when trying to connect'')
        \<and> transactionHistory (tx_metrics tm) = []
        \<and> failedTransactions (tx_metrics tm) = 1
        \<and> client tm = None \<and> \<not> isTransactionActive tm)
   \<and> (case beginTransaction None failing_begin_env idle_system of
      (r, tm, pm) \<Rightarrow>
        r = Inl (DriverError ''connection reset'')
        \<and> transactionHistory (tx_metrics tm) = []
        \<and> failedTransactions (tx_metrics tm) = 1
        \<and> client tm = None \<and> \<not> isTransactionActive tm
        \<and> pool_leased (pool pm) = [] \<and> connectionTimestamps pm ''conn_1'' = None)
   \<and> (case beginTransaction repeatable_read failing_setup_env idle_system of
      (r, tm, pm) \<Rightarrow>
        r = Inl (DriverError ''syntax error at or near REPEATABLE_READ'')
        \<and> transactionHistory (tx_metrics tm) = []
        \<and> client tm = None \<and> \<not> isTransactionActive tm
        \<and> pool_leased (pool pm) = [0]
        \<and> connectionTimestamps pm ''conn_1'' = Some 0
        \<and> activeLeasedConnections (metrics pm) = 1
        \<and> releasedConnections (metrics pm) = 0)"
  by (simp add: example_defs evaluation_defs)

section \<open>Properties of the ConnectionPoolManager\<close>

text \<open>
  C10. \<^verbatim>\<open>resetMetrics\<close> puts every counter, the durations and the history back to
  the values of a newly constructed manager, except
  \<open>maxConcurrentLeasedConnections\<close>, which keeps its value; it stamps
  \<open>lastMetricsResetTime\<close> with the clock of the call; and the lease table (with the
  lease objects, the clients, the pool and the pending timers) is left as it was.
\<close>

theorem resetMetrics_keeps_max_concurrent:
  "metrics (resetMetrics now s) =
     (metrics (newConnectionPoolManager cfg now))
       \<lparr>maxConcurrentLeasedConnections := maxConcurrentLeasedConnections (metrics s)\<rparr>
   \<and> totalConnectionsCreated (metrics (resetMetrics now s)) = 0
   \<and> acquiredConnections (metrics (resetMetrics now s)) = 0
   \<and> releasedConnections (metrics (resetMetrics now s)) = 0
   \<and> failedAcquisitions (metrics (resetMetrics now s)) = 0
   \<and> activeLeasedConnections (metrics (resetMetrics now s)) = 0
   \<and> connectionDurations (metrics (resetMetrics now s)) = []
   \<and> connectionHistory (metrics (resetMetrics now s)) = []
   \<and> maxConcurrentLeasedConnections (metrics (resetMetrics now s))
       = maxConcurrentLeasedConnections (metrics s)
   \<and> lastMetricsResetTime (metrics (resetMetrics now s)) = Some now
   \<and> connectionTimestamps (resetMetrics now s) = connectionTimestamps s
   \<and> leases (resetMetrics now s) = leases s
   \<and> clients (resetMetrics now s) = clients s
   \<and> pool (resetMetrics now s) = pool s
   \<and> timers (resetMetrics now s) = timers s"
  by (simp add: resetMetrics_def initializeMetrics_def newConnectionPoolManager_def)

subsection \<open>The invariant is kept by every step\<close>

lemma pm_inv_cong:
  assumes "activeLeasedConnections (metrics s') = activeLeasedConnections (metrics s)"
    and "connectionTimestamps s' = connectionTimestamps s"
    and "\<And>r. connectionId (clients s' r) = connectionId (clients s r)"
    and "pool s' = pool s"
  shows "pm_inv M s' = pm_inv M s"
  using assms by (simp add: pm_inv_def tracked_clients_def)

lemma tracked_finite: "pm_inv M s \<Longrightarrow> \<not> pool_ended (pool s) \<Longrightarrow> finite (tracked_clients s)"
proof -
  assume a: "pm_inv M s" "\<not> pool_ended (pool s)"
  then have "tracked_clients s \<subseteq> set (pool_leased (pool s))"
    by (auto simp: pm_inv_def tracked_clients_def)
  then show ?thesis by (rule finite_subset) simp
qed

lemma pm_inv_bound:
  assumes "pm_inv M s"
  shows "0 \<le> activeLeasedConnections (metrics s)
       \<and> activeLeasedConnections (metrics s) \<le> int (pool_max (pool s))"
proof (cases "pool_ended (pool s)")
  case True
  with assms show ?thesis by (simp add: pm_inv_def)
next
  case False
  with assms have sub: "tracked_clients s \<subseteq> set (pool_leased (pool s))"
    by (auto simp: pm_inv_def tracked_clients_def)
  have "card (tracked_clients s) \<le> card (set (pool_leased (pool s)))"
    by (rule card_mono) (simp_all add: sub)
  also have "\<dots> \<le> length (pool_leased (pool s))" by (rule card_length)
  also have "\<dots> \<le> pool_max (pool s)" using assms by (simp add: pm_inv_def pool_inv_def)
  finally have "card (tracked_clients s) \<le> pool_max (pool s)" .
  with assms False show ?thesis by (simp add: pm_inv_def)
qed

lemma pm_inv_trackedD:
  "pm_inv M s \<Longrightarrow> \<not> pool_ended (pool s) \<Longrightarrow> connectionId (clients s r) = Some i \<Longrightarrow>
     r \<in> set (pool_leased (pool s)) \<and> connectionTimestamps s i \<noteq> None"
  unfolding pm_inv_def by meson

lemma pm_inv_uniqD:
  "pm_inv M s \<Longrightarrow> \<not> pool_ended (pool s) \<Longrightarrow> connectionId (clients s r) = Some i \<Longrightarrow>
     connectionId (clients s r') = Some i \<Longrightarrow> r = r'"
  unfolding pm_inv_def by meson

lemma pm_inv_activeD:
  "pm_inv M s \<Longrightarrow> \<not> pool_ended (pool s) \<Longrightarrow>
     activeLeasedConnections (metrics s) \<le> int (card (tracked_clients s))"
  unfolding pm_inv_def by meson

lemma pm_inv_endedD:
  "pm_inv M s \<Longrightarrow> pool_ended (pool s) \<Longrightarrow>
     activeLeasedConnections (metrics s) = 0 \<and> connectionTimestamps s = Map.empty"
  unfolding pm_inv_def by meson

lemma pm_inv_poolD:
  "pm_inv M s \<Longrightarrow> pool_inv (pool s) \<and> 0 \<le> activeLeasedConnections (metrics s)
     \<and> pool_max (pool s) = M"
  unfolding pm_inv_def by meson

lemma pm_invI:
  assumes "0 \<le> activeLeasedConnections (metrics s)" and "pool_inv (pool s)"
    and "pool_max (pool s) = M"
    and "pool_ended (pool s) \<Longrightarrow>
           activeLeasedConnections (metrics s) = 0 \<and> connectionTimestamps s = Map.empty"
    and "\<And>r i. \<not> pool_ended (pool s) \<Longrightarrow> connectionId (clients s r) = Some i \<Longrightarrow>
           r \<in> set (pool_leased (pool s)) \<and> connectionTimestamps s i \<noteq> None"
    and "\<And>r r' i. \<not> pool_ended (pool s) \<Longrightarrow> connectionId (clients s r) = Some i \<Longrightarrow>
           connectionId (clients s r') = Some i \<Longrightarrow> r = r'"
    and "\<not> pool_ended (pool s) \<Longrightarrow>
           activeLeasedConnections (metrics s) \<le> int (card (tracked_clients s))"
  shows "pm_inv M s"
proof (cases "pool_ended (pool s)")
  case True
  with assms(1-4) show ?thesis by (simp add: pm_inv_def)
next
  case False
  have a: "\<forall>r i. connectionId (clients s r) = Some i \<longrightarrow>
             r \<in> set (pool_leased (pool s)) \<and> connectionTimestamps s i \<noteq> None"
    using assms(5) [OF False] by blast
  have b: "\<forall>r r' i. connectionId (clients s r) = Some i \<and> connectionId (clients s r') = Some i
             \<longrightarrow> r = r'"
    using assms(6) [OF False] by blast
  show ?thesis
    using False assms(1,2,3) a b assms(7) [OF False] by (simp add: pm_inv_def)
qed

subsection \<open>The pool\<close>

lemma pool_release_inv: "pool_inv p \<Longrightarrow> pool_inv (pool_release c d p)"
proof -
  assume a: "pool_inv p"
  have len: "c \<in> set (pool_leased p) \<Longrightarrow> length (removeAll c (pool_leased p)) < length (pool_leased p)"
    by (simp add: length_removeAll_less)
  show ?thesis
    using a len by (auto simp: pool_inv_def pool_release_def)
qed

lemma pool_release_fields:
  "pool_ended (pool_release c d p) = pool_ended p
   \<and> pool_max (pool_release c d p) = pool_max p
   \<and> set (pool_leased (pool_release c d p)) = set (pool_leased p) - {c}"
  by (auto simp: pool_release_def)

lemma pool_connect_inv:
  assumes "pool_inv p" and "pool_connect p choice = Inr (c, created, p')"
  shows "pool_inv p' \<and> \<not> pool_ended p \<and> pool_ended p' = pool_ended p \<and> pool_max p' = pool_max p
       \<and> c \<notin> set (pool_leased p) \<and> set (pool_leased p') = insert c (set (pool_leased p))"
proof (cases choice)
  case (ConnectFail m)
  with assms show ?thesis by (simp add: pool_connect_def split: if_splits)
next
  case (ConnectIdle c')
  have "length (removeAll c' (pool_idle p)) < length (pool_idle p)" if "c' \<in> set (pool_idle p)"
    using that by (simp add: length_removeAll_less)
  with assms ConnectIdle show ?thesis
    by (auto simp: pool_connect_def pool_inv_def split: if_splits)
next
  case (ConnectNew pid)
  with assms have c: "c = pool_nextClient p" and
      p': "p' = p\<lparr>pool_leased := pool_nextClient p # pool_leased p,
                    pool_nextClient := Suc (pool_nextClient p)\<rparr>"
      and ne: "\<not> pool_ended p"
      and lt: "length (pool_leased p) + length (pool_idle p) < pool_max p"
    by (auto simp: pool_connect_def split: if_splits)
  have "pool_nextClient p \<notin> set (pool_leased p) \<union> set (pool_idle p)"
    using assms(1) by (auto simp: pool_inv_def)
  with assms(1) c p' ne lt show ?thesis
    by (auto simp: pool_inv_def less_Suc_eq)
qed


subsection \<open>Release\<close>

lemma restoreOriginalQuery_fields [simp]:
  "metrics (restoreOriginalQuery c s) = metrics s"
  "connectionTimestamps (restoreOriginalQuery c s) = connectionTimestamps s"
  "pool (restoreOriginalQuery c s) = pool s"
  "timers (restoreOriginalQuery c s) = timers s"
  "leases (restoreOriginalQuery c s) = leases s"
  "emitted (restoreOriginalQuery c s) = emitted s"
  "cancelRequests (restoreOriginalQuery c s) = cancelRequests s"
  "errorListeners (restoreOriginalQuery c s) = errorListeners s"
  "nextTimer (restoreOriginalQuery c s) = nextTimer s"
  "connectionId (clients (restoreOriginalQuery c s) r) = connectionId (clients s r)"
  "originalRelease (clients (restoreOriginalQuery c s) r) = originalRelease (clients s r)"
  "originalQuery (clients (restoreOriginalQuery c s) r)
     = (if r = c then None else originalQuery (clients s r))"
  by (simp_all add: restoreOriginalQuery_def)

lemma callOriginalRelease_fields [simp]:
  "metrics (callOriginalRelease c d s) = metrics s"
  "connectionTimestamps (callOriginalRelease c d s) = connectionTimestamps s"
  "pool (callOriginalRelease c d s)
     = (if originalRelease (clients s c) then pool_release c d (pool s) else pool s)"
  "timers (callOriginalRelease c d s) = timers s"
  "leases (callOriginalRelease c d s) = leases s"
  "emitted (callOriginalRelease c d s) = emitted s"
  "cancelRequests (callOriginalRelease c d s) = cancelRequests s"
  "errorListeners (callOriginalRelease c d s) = errorListeners s"
  "nextTimer (callOriginalRelease c d s) = nextTimer s"
  "connectionId (clients (callOriginalRelease c d s) r) = connectionId (clients s r)"
  "originalQuery (clients (callOriginalRelease c d s) r) = originalQuery (clients s r)"
  "originalRelease (clients (callOriginalRelease c d s) r)
     = (if r = c then False else originalRelease (clients s r))"
  by (simp_all add: callOriginalRelease_def)

lemma clearLeaseTimer_fields [simp]:
  "metrics (clearLeaseTimer a s) = metrics s"
  "connectionTimestamps (clearLeaseTimer a s) = connectionTimestamps s"
  "pool (clearLeaseTimer a s) = pool s"
  "clients (clearLeaseTimer a s) = clients s"
  "emitted (clearLeaseTimer a s) = emitted s"
  "cancelRequests (clearLeaseTimer a s) = cancelRequests s"
  "errorListeners (clearLeaseTimer a s) = errorListeners s"
  "nextTimer (clearLeaseTimer a s) = nextTimer s"
  "timers (clearLeaseTimer a s)
     = (case queryTimeoutTimer (leases s a) of None \<Rightarrow> timers s
        | Some t \<Rightarrow> (timers s)(t := None))"
  by (simp_all add: clearLeaseTimer_def clearTimeout_def split: option.splits)

lemma recordRelease_fields [simp]:
  "activeLeasedConnections (metrics (recordRelease c i a e now s))
     = max 0 (activeLeasedConnections (metrics s) - 1)"
  "releasedConnections (metrics (recordRelease c i a e now s))
     = releasedConnections (metrics s) + 1"
  "connectionTimestamps (recordRelease c i a e now s) = (connectionTimestamps s)(i := None)"
  "pool (recordRelease c i a e now s) = pool s"
  "timers (recordRelease c i a e now s) = timers s"
  "leases (recordRelease c i a e now s) = leases s"
  "emitted (recordRelease c i a e now s) = emitted s"
  "cancelRequests (recordRelease c i a e now s) = cancelRequests s"
  "errorListeners (recordRelease c i a e now s) = errorListeners s"
  "nextTimer (recordRelease c i a e now s) = nextTimer s"
  "connectionId (clients (recordRelease c i a e now s) r)
     = (if r = c then None else connectionId (clients s r))"
  "originalQuery (clients (recordRelease c i a e now s) r) = originalQuery (clients s r)"
  "originalRelease (clients (recordRelease c i a e now s) r) = originalRelease (clients s r)"
  by (simp_all add: recordRelease_def Let_def addHistory_def)

lemma emitConnectionStatus_fields [simp]:
  "metrics (emitConnectionStatus s) = metrics s"
  "connectionTimestamps (emitConnectionStatus s) = connectionTimestamps s"
  "pool (emitConnectionStatus s) = pool s"
  "clients (emitConnectionStatus s) = clients s"
  "timers (emitConnectionStatus s) = timers s"
  "leases (emitConnectionStatus s) = leases s"
  "cancelRequests (emitConnectionStatus s) = cancelRequests s"
  "errorListeners (emitConnectionStatus s) = errorListeners s"
  "nextTimer (emitConnectionStatus s) = nextTimer s"
  by (simp_all add: emitConnectionStatus_def)

lemma untracked_release:
  assumes "\<not> is_tracked c s"
  shows "performClientRelease c e f t s =
           callOriginalRelease c (e \<noteq> None \<or> f = Some True) (restoreOriginalQuery c s)"
proof (cases "connectionId (clients s c)")
  case None
  then show ?thesis by (simp add: performClientRelease_def Let_def)
next
  case (Some i)
  with assms have "connectionTimestamps s i = None" by (simp add: is_tracked_def)
  with Some show ?thesis by (simp add: performClientRelease_def Let_def)
qed

lemma tracked_release:
  assumes "connectionId (clients s c) = Some i" and "connectionTimestamps s i = Some a"
  shows "performClientRelease c e f t s =
           emitConnectionStatus
             (callOriginalRelease c (e \<noteq> None \<or> f = Some True)
                (recordRelease c i a e t (clearLeaseTimer a (restoreOriginalQuery c s))))"
  using assms by (simp add: performClientRelease_def Let_def)

lemma untracked_release_core:
  assumes "\<not> is_tracked c s"
  shows "metrics (performClientRelease c e f t s) = metrics s"
    and "connectionTimestamps (performClientRelease c e f t s) = connectionTimestamps s"
    and "connectionId (clients (performClientRelease c e f t s) r) = connectionId (clients s r)"
    and "pool (performClientRelease c e f t s) =
           (if originalRelease (clients s c)
            then pool_release c (e \<noteq> None \<or> f = Some True) (pool s) else pool s)"
    and "timers (performClientRelease c e f t s) = timers s"
    and "emitted (performClientRelease c e f t s) = emitted s"
    and "leases (performClientRelease c e f t s) = leases s"
    and "cancelRequests (performClientRelease c e f t s) = cancelRequests s"
    and "errorListeners (performClientRelease c e f t s) = errorListeners s"
  by (simp_all add: untracked_release [OF assms])

lemma tracked_release_core:
  assumes "connectionId (clients s c) = Some i" and "connectionTimestamps s i = Some a"
  shows "activeLeasedConnections (metrics (performClientRelease c e f t s))
           = max 0 (activeLeasedConnections (metrics s) - 1)"
    and "connectionTimestamps (performClientRelease c e f t s) = (connectionTimestamps s)(i := None)"
    and "connectionId (clients (performClientRelease c e f t s) r)
           = (if r = c then None else connectionId (clients s r))"
    and "pool (performClientRelease c e f t s) =
           (if originalRelease (clients s c)
            then pool_release c (e \<noteq> None \<or> f = Some True) (pool s) else pool s)"
  by (simp_all add: tracked_release [OF assms])

lemma performClientRelease_inv:
  assumes inv: "pm_inv M s"
  shows "pm_inv M (performClientRelease c e f t s)"
proof (cases "is_tracked c s")
  case False
  note core = untracked_release_core [OF False, of e f t]
  have pinv: "pool_inv (pool (performClientRelease c e f t s))"
    using pm_inv_poolD [OF inv] by (simp add: core pool_release_inv)
  have en: "pool_ended (pool (performClientRelease c e f t s)) = pool_ended (pool s)"
    by (simp add: core pool_release_fields)
  have tr: "tracked_clients (performClientRelease c e f t s) = tracked_clients s"
    by (simp add: tracked_clients_def core)
  show ?thesis
  proof (rule pm_invI)
    show "0 \<le> activeLeasedConnections (metrics (performClientRelease c e f t s))"
      using pm_inv_poolD [OF inv] by (simp add: core)
    show "pool_inv (pool (performClientRelease c e f t s))" by (rule pinv)
    show "pool_max (pool (performClientRelease c e f t s)) = M"
      using pm_inv_poolD [OF inv] by (simp add: core pool_release_fields)
    show "activeLeasedConnections (metrics (performClientRelease c e f t s)) = 0 \<and>
          connectionTimestamps (performClientRelease c e f t s) = Map.empty"
      if "pool_ended (pool (performClientRelease c e f t s))"
    proof -
      from that have "pool_ended (pool s)" by (simp add: en)
      from pm_inv_endedD [OF inv this] show ?thesis by (simp add: core)
    qed
    show "r \<in> set (pool_leased (pool (performClientRelease c e f t s))) \<and>
          connectionTimestamps (performClientRelease c e f t s) i \<noteq> None"
      if "\<not> pool_ended (pool (performClientRelease c e f t s))"
        and "connectionId (clients (performClientRelease c e f t s) r) = Some i" for r i
    proof -
      from that(1) have ne: "\<not> pool_ended (pool s)" by (simp add: en)
      from that(2) have r: "connectionId (clients s r) = Some i" by (simp add: core)
      from pm_inv_trackedD [OF inv ne r]
      have rl: "r \<in> set (pool_leased (pool s))" and ct: "connectionTimestamps s i \<noteq> None"
        by simp_all
      have "r \<noteq> c" using False r ct by (auto simp: is_tracked_def)
      with rl ct show ?thesis by (simp add: core pool_release_fields)
    qed
    show "r = r'"
      if "\<not> pool_ended (pool (performClientRelease c e f t s))"
        and "connectionId (clients (performClientRelease c e f t s) r) = Some i"
        and "connectionId (clients (performClientRelease c e f t s) r') = Some i" for r r' i
    proof -
      from that(1) have ne: "\<not> pool_ended (pool s)" by (simp add: en)
      from that(2,3) pm_inv_uniqD [OF inv ne, of r i r'] show ?thesis by (simp add: core)
    qed
    show "activeLeasedConnections (metrics (performClientRelease c e f t s))
            \<le> int (card (tracked_clients (performClientRelease c e f t s)))"
      if "\<not> pool_ended (pool (performClientRelease c e f t s))"
    proof -
      from that have ne: "\<not> pool_ended (pool s)" by (simp add: en)
      from pm_inv_activeD [OF inv ne] show ?thesis by (simp add: core tr)
    qed
  qed
next
  case True
  then obtain i a where i: "connectionId (clients s c) = Some i"
    and a: "connectionTimestamps s i = Some a"
    by (auto simp: is_tracked_def split: option.splits)
  note core = tracked_release_core [OF i a, of e f t]
  from pm_inv_endedD [OF inv] a have ne: "\<not> pool_ended (pool s)" by auto
  have en: "\<not> pool_ended (pool (performClientRelease c e f t s))"
    using ne by (simp add: core pool_release_fields)
  have pinv: "pool_inv (pool (performClientRelease c e f t s))"
    using pm_inv_poolD [OF inv] by (simp add: core pool_release_inv)
  have sub: "tracked_clients s \<subseteq> set (pool_leased (pool s))"
    using pm_inv_trackedD [OF inv ne] by (auto simp: tracked_clients_def)
  have fin: "finite (tracked_clients s)"
    by (rule finite_subset [OF sub]) simp
  have cin: "c \<in> tracked_clients s" using i by (simp add: tracked_clients_def)
  have tr: "tracked_clients (performClientRelease c e f t s) = tracked_clients s - {c}"
    by (auto simp: tracked_clients_def core)
  have card: "card (tracked_clients s - {c}) = card (tracked_clients s) - 1"
    using fin cin by simp
  have pos: "0 < card (tracked_clients s)"
    using fin cin by (auto simp: card_gt_0_iff)
  show ?thesis
  proof (rule pm_invI)
    show "0 \<le> activeLeasedConnections (metrics (performClientRelease c e f t s))"
      by (simp add: core)
    show "pool_inv (pool (performClientRelease c e f t s))" by (rule pinv)
    show "pool_max (pool (performClientRelease c e f t s)) = M"
      using pm_inv_poolD [OF inv] by (simp add: core pool_release_fields)
    show "activeLeasedConnections (metrics (performClientRelease c e f t s)) = 0 \<and>
          connectionTimestamps (performClientRelease c e f t s) = Map.empty"
      if "pool_ended (pool (performClientRelease c e f t s))"
      using that en by simp
    show "r \<in> set (pool_leased (pool (performClientRelease c e f t s))) \<and>
          connectionTimestamps (performClientRelease c e f t s) j \<noteq> None"
      if "connectionId (clients (performClientRelease c e f t s) r) = Some j" for r j
    proof -
      from that have rc: "r \<noteq> c" and r: "connectionId (clients s r) = Some j"
        by (simp_all add: core split: if_splits)
      from pm_inv_trackedD [OF inv ne r]
      have rl: "r \<in> set (pool_leased (pool s))" and ct: "connectionTimestamps s j \<noteq> None"
        by simp_all
      have "j \<noteq> i" using pm_inv_uniqD [OF inv ne r, of c] i rc by auto
      with rl ct rc show ?thesis by (simp add: core pool_release_fields)
    qed
    show "r = r'"
      if "connectionId (clients (performClientRelease c e f t s) r) = Some j"
        and "connectionId (clients (performClientRelease c e f t s) r') = Some j" for r r' j
      using that pm_inv_uniqD [OF inv ne, of r j r'] by (simp add: core split: if_splits)
    show "activeLeasedConnections (metrics (performClientRelease c e f t s))
            \<le> int (card (tracked_clients (performClientRelease c e f t s)))"
      using pm_inv_activeD [OF inv ne] pos by (simp add: core tr card)
  qed
qed

subsection \<open>Steps that leave leases, clients' ids and the pool alone\<close>

lemma clearTimeout_opt_inv [simp]: "pm_inv M (clearTimeout_opt t s) = pm_inv M s"
  by (rule pm_inv_cong) (simp_all add: clearTimeout_opt_def clearTimeout_def split: option.splits)

lemma clearTimeout_inv [simp]: "pm_inv M (clearTimeout t s) = pm_inv M s"
  by (rule pm_inv_cong) (simp_all add: clearTimeout_def)

lemma queryStart_inv [simp]: "pm_inv M (queryStart c a s) = pm_inv M s"
  by (rule pm_inv_cong)
     (simp_all add: queryStart_def Let_def clearTimeout_opt_def clearTimeout_def split: option.splits)

lemma querySettle_inv [simp]: "pm_inv M (querySettle a s) = pm_inv M s"
  by (simp add: querySettle_def)

lemma issueQuery_inv [simp]: "pm_inv M (issueQuery c s) = pm_inv M s"
  by (simp add: issueQuery_def split: option.splits)

lemma emit_error_inv: "emit_error e s = Inr s' \<Longrightarrow> pm_inv M s' = pm_inv M s"
proof -
  assume "emit_error e s = Inr s'"
  then have s': "s' = s\<lparr>emitted := emitted s @ [ErrorEvent e]\<rparr>"
    by (auto simp: emit_error_def split: if_splits)
  show ?thesis unfolding s' by (rule pm_inv_cong) simp_all
qed

lemma onError_inv [simp]: "pm_inv M (onError s) = pm_inv M s"
  by (rule pm_inv_cong) (simp_all add: onError_def)

lemma addHistory_active [simp]:
  "activeLeasedConnections (addHistory ty now cid dur err m) = activeLeasedConnections m"
  by (simp add: addHistory_def Let_def)

subsection \<open>Connecting\<close>

lemma pool_release_untracked_inv:
  assumes inv: "pm_inv M s" and un: "\<not> pool_ended (pool s) \<Longrightarrow> connectionId (clients s c) = None"
  shows "pm_inv M (s\<lparr>pool := pool_release c d (pool s)\<rparr>)"
proof (rule pm_invI)
  let ?s = "s\<lparr>pool := pool_release c d (pool s)\<rparr>"
  show "0 \<le> activeLeasedConnections (metrics ?s)" using pm_inv_poolD [OF inv] by simp
  show "pool_inv (pool ?s)" using pm_inv_poolD [OF inv] by (simp add: pool_release_inv)
  show "pool_max (pool ?s) = M" using pm_inv_poolD [OF inv] by (simp add: pool_release_fields)
  show "activeLeasedConnections (metrics ?s) = 0 \<and> connectionTimestamps ?s = Map.empty"
    if "pool_ended (pool ?s)"
    using that pm_inv_endedD [OF inv] by (simp add: pool_release_fields)
  show "r \<in> set (pool_leased (pool ?s)) \<and> connectionTimestamps ?s i \<noteq> None"
    if "\<not> pool_ended (pool ?s)" and "connectionId (clients ?s r) = Some i" for r i
  proof -
    from that(1) have ne: "\<not> pool_ended (pool s)" by (simp add: pool_release_fields)
    from that(2) have r: "connectionId (clients s r) = Some i" by simp
    from un [OF ne] r have "r \<noteq> c" by auto
    with pm_inv_trackedD [OF inv ne r] show ?thesis by (simp add: pool_release_fields)
  qed
  show "r = r'"
    if "\<not> pool_ended (pool ?s)" and "connectionId (clients ?s r) = Some i"
      and "connectionId (clients ?s r') = Some i" for r r' i
  proof -
    from that(1) have ne: "\<not> pool_ended (pool s)" by (simp add: pool_release_fields)
    from that(2,3) pm_inv_uniqD [OF inv ne, of r i r'] show ?thesis by simp
  qed
  show "activeLeasedConnections (metrics ?s) \<le> int (card (tracked_clients ?s))"
    if "\<not> pool_ended (pool ?s)"
  proof -
    from that have ne: "\<not> pool_ended (pool s)" by (simp add: pool_release_fields)
    from pm_inv_activeD [OF inv ne] show ?thesis by (simp add: tracked_clients_def)
  qed
qed

lemma connect_fail: "connect choice s = (Inl m, s') \<Longrightarrow> s' = s"
  by (auto simp: connect_def split: sum.splits prod.splits if_splits)

lemma connect_ok:
  assumes inv: "pm_inv M s" and ok: "connect choice s = (Inr c, s')"
  shows "pm_inv M s' \<and> \<not> pool_ended (pool s') \<and> c \<in> set (pool_leased (pool s'))
       \<and> connectionId (clients s' c) = None
       \<and> connectionTimestamps s' = connectionTimestamps s
       \<and> pool_max (pool s') = pool_max (pool s)
       \<and> activeLeasedConnections (metrics s') = activeLeasedConnections (metrics s)"
proof -
  from ok obtain created p' where pc: "pool_connect (pool s) choice = Inr (c, created, p')"
    and s': "s' = (if created
           then s\<lparr>pool := p',
                  clients := (clients s)(c := new_client (case choice of ConnectNew pid \<Rightarrow> pid | _ \<Rightarrow> None)),
                  metrics := (metrics s)\<lparr>totalConnectionsCreated :=
                                           totalConnectionsCreated (metrics s) + 1\<rparr>\<rparr>
           else s\<lparr>pool := p'\<rparr>)"
    by (auto simp: connect_def split: sum.splits prod.splits)
  note pool = pool_connect_inv [OF conjunct1 [OF pm_inv_poolD [OF inv]] pc]
  from pool have ne: "\<not> pool_ended (pool s)" and cnew: "c \<notin> set (pool_leased (pool s))"
    and leased: "set (pool_leased p') = insert c (set (pool_leased (pool s)))"
    and pinv: "pool_inv p'" and en': "pool_ended p' = pool_ended (pool s)"
    and mx: "pool_max p' = pool_max (pool s)"
    by simp_all
  have cnone: "connectionId (clients s c) = None"
  proof (cases "connectionId (clients s c)")
    case (Some i)
    from pm_inv_trackedD [OF inv ne Some] cnew show ?thesis by simp
  qed simp
  have cid: "connectionId (clients s' r) = connectionId (clients s r)" for r
    using cnone by (simp add: s' new_client_def)
  have pl: "pool s' = p'" by (simp add: s')
  have ct: "connectionTimestamps s' = connectionTimestamps s" by (simp add: s')
  have act: "activeLeasedConnections (metrics s') = activeLeasedConnections (metrics s)"
    by (simp add: s')
  have tr: "tracked_clients s' = tracked_clients s" by (simp add: tracked_clients_def cid)
  have "pm_inv M s'"
  proof (rule pm_invI)
    show "0 \<le> activeLeasedConnections (metrics s')" using pm_inv_poolD [OF inv] by (simp add: act)
    show "pool_inv (pool s')" using pinv by (simp add: pl)
    show "pool_max (pool s') = M" using pm_inv_poolD [OF inv] by (simp add: pl mx)
    show "activeLeasedConnections (metrics s') = 0 \<and> connectionTimestamps s' = Map.empty"
      if "pool_ended (pool s')" using that ne by (simp add: pl en')
    show "r \<in> set (pool_leased (pool s')) \<and> connectionTimestamps s' i \<noteq> None"
      if "connectionId (clients s' r) = Some i" for r i
      using that pm_inv_trackedD [OF inv ne, of r i] by (simp add: cid pl leased ct)
    show "r = r'" if "connectionId (clients s' r) = Some i" "connectionId (clients s' r') = Some i"
      for r r' i
      using that pm_inv_uniqD [OF inv ne, of r i r'] by (simp add: cid)
    show "activeLeasedConnections (metrics s') \<le> int (card (tracked_clients s'))"
      using pm_inv_activeD [OF inv ne] by (simp add: act tr)
  qed
  then show ?thesis using ne by (simp add: pl en' leased cid cnone ct act mx)
qed

lemma cancelBackend_inv: "pm_inv M s \<Longrightarrow> pm_inv M (cancelBackend pid choice s)"
proof -
  assume inv: "pm_inv M s"
  obtain res s1 where c: "connect choice s = (res, s1)" by (cases "connect choice s")
  show ?thesis
  proof (cases res)
    case (Inl m)
    from c Inl have "s1 = s" by (simp add: connect_fail)
    with c Inl inv show ?thesis by (simp add: cancelBackend_def)
  next
    case (Inr cc)
    from connect_ok [OF inv c [unfolded Inr]]
    have i1: "pm_inv M s1" and none: "connectionId (clients s1 cc) = None" by simp_all
    have "pm_inv M (s1\<lparr>pool := pool_release cc False (pool s1)\<rparr>)"
      by (rule pool_release_untracked_inv [OF i1]) (rule none)
    also have "pm_inv M (s1\<lparr>pool := pool_release cc False (pool s1)\<rparr>)
                 = pm_inv M (cancelBackend pid choice s)"
      using c Inr by (intro pm_inv_cong [symmetric]) (simp_all add: cancelBackend_def)
    finally show ?thesis .
  qed
qed

lemma queryTimeoutCallback_inv:
  assumes inv: "pm_inv M s"
  shows "pm_inv M (snd (queryTimeoutCallback c pid choice now s))"
proof (cases "emit_error (DatabaseConnectionError ''Query timeout detected'') s")
  case (Inl e)
  with inv show ?thesis by (simp add: queryTimeoutCallback_def)
next
  case (Inr s1)
  from emit_error_inv [OF Inr] inv have i1: "pm_inv M s1" by simp
  have i2: "pm_inv M (case pid of None \<Rightarrow> s1
                    | Some p \<Rightarrow> if p = 0 then s1 else cancelBackend p choice s1)"
    using i1 by (simp add: cancelBackend_inv split: option.splits)
  show ?thesis
    using performClientRelease_inv [OF i2]
    by (simp add: queryTimeoutCallback_def Inr Let_def)
qed

lemma fireTimer_inv: "pm_inv M s \<Longrightarrow> pm_inv M (fireTimer t choice now s)"
  by (cases "timers s t") (simp_all add: fireTimer_def queryTimeoutCallback_inv split: prod.splits)

lemma clientQuery_inv: "pm_inv M s \<Longrightarrow> pm_inv M (snd (clientQuery c outcome s))"
  by (cases "originalQuery (clients s c)"; cases outcome)
     (simp_all add: clientQuery_def Let_def fireTimer_inv)

subsection \<open>Acquiring\<close>

lemma getConnection_catch_inv:
  assumes inv: "pm_inv M s"
  shows "pm_inv M (snd (getConnection_catch e env now s))"
proof -
  let ?s1 = "s\<lparr>metrics := addHistory Failed_acquire now (Some (gc_internalConnectionId env))
                 (Some (now - gc_acquisitionStartTime env)) (Some (message e))
                 ((metrics s)\<lparr>failedAcquisitions := failedAcquisitions (metrics s) + 1\<rparr>)\<rparr>"
  have i1: "pm_inv M ?s1 = pm_inv M s" by (rule pm_inv_cong) simp_all
  show ?thesis
  proof (cases "emit_error e ?s1")
    case (Inl thrown)
    with inv i1 show ?thesis by (simp add: getConnection_catch_def Let_def)
  next
    case (Inr s2)
    from emit_error_inv [OF Inr] inv i1 show ?thesis
      by (simp add: getConnection_catch_def Let_def Inr)
  qed
qed

lemma registerLease_fields [simp]:
  "activeLeasedConnections (metrics (registerLease options env c s))
     = activeLeasedConnections (metrics s) + 1"
  "connectionTimestamps (registerLease options env c s)
     = (connectionTimestamps s)(gc_internalConnectionId env \<mapsto> nextLease s)"
  "pool (registerLease options env c s) = pool s"
  "timers (registerLease options env c s) = timers s"
  "nextTimer (registerLease options env c s) = nextTimer s"
  "emitted (registerLease options env c s) = emitted s"
  "cancelRequests (registerLease options env c s) = cancelRequests s"
  "errorListeners (registerLease options env c s) = errorListeners s"
  "connectionId (clients (registerLease options env c s) r)
     = (if r = c then Some (gc_internalConnectionId env) else connectionId (clients s r))"
  by (simp_all add: registerLease_def Let_def addHistory_def)

lemma registerLease_inv:
  assumes inv: "pm_inv M s" and ne: "\<not> pool_ended (pool s)"
    and leased: "c \<in> set (pool_leased (pool s))"
    and cnone: "connectionId (clients s c) = None"
    and fresh: "connectionTimestamps s (gc_internalConnectionId env) = None"
  shows "pm_inv M (registerLease options env c s)"
proof (rule pm_invI)
  let ?s = "registerLease options env c s"
  let ?i = "gc_internalConnectionId env"
  have sub: "tracked_clients s \<subseteq> set (pool_leased (pool s))"
    using pm_inv_trackedD [OF inv ne] by (auto simp: tracked_clients_def)
  have fin: "finite (tracked_clients s)" by (rule finite_subset [OF sub]) simp
  have cnot: "c \<notin> tracked_clients s" using cnone by (simp add: tracked_clients_def)
  have tr: "tracked_clients ?s = insert c (tracked_clients s)"
    by (auto simp: tracked_clients_def)
  have nobody: "connectionId (clients s r) \<noteq> Some ?i" for r
    using pm_inv_trackedD [OF inv ne, of r ?i] fresh by auto
  show "0 \<le> activeLeasedConnections (metrics ?s)" using pm_inv_poolD [OF inv] by simp
  show "pool_inv (pool ?s)" using pm_inv_poolD [OF inv] by simp
  show "pool_max (pool ?s) = M" using pm_inv_poolD [OF inv] by simp
  show "activeLeasedConnections (metrics ?s) = 0 \<and> connectionTimestamps ?s = Map.empty"
    if "pool_ended (pool ?s)" using that ne by simp
  show "r \<in> set (pool_leased (pool ?s)) \<and> connectionTimestamps ?s i \<noteq> None"
    if "connectionId (clients ?s r) = Some i" for r i
    using that leased pm_inv_trackedD [OF inv ne, of r i] by (auto split: if_splits)
  show "r = r'"
    if "connectionId (clients ?s r) = Some i" "connectionId (clients ?s r') = Some i" for r r' i
    using that nobody pm_inv_uniqD [OF inv ne, of r i r'] by (auto split: if_splits)
  show "activeLeasedConnections (metrics ?s) \<le> int (card (tracked_clients ?s))"
    using pm_inv_activeD [OF inv ne] fin cnot by (simp add: tr)
qed

lemma getConnection_inv:
  assumes inv: "pm_inv M s"
    and fresh: "connectionTimestamps s (gc_internalConnectionId env) = None"
  shows "pm_inv M (snd (getConnection options env s))"
proof -
  obtain res s0 where c: "connect (gc_connect env) s = (res, s0)"
    by (cases "connect (gc_connect env) s")
  show ?thesis
  proof (cases res)
    case (Inl m)
    from c Inl have "s0 = s" by (simp add: connect_fail)
    with c Inl inv show ?thesis by (simp add: getConnection_def getConnection_catch_inv)
  next
    case (Inr cl)
    note ok = connect_ok [OF inv c [unfolded Inr]]
    have i1: "pm_inv M (registerLease options env cl s0)"
      using ok fresh by (intro registerLease_inv) simp_all
    obtain r2 s2 where q1: "(if isolationLevelOf options \<noteq> None
                 then clientQuery cl (gc_isolationQuery env) (registerLease options env cl s0)
                 else (Inr (), registerLease options env cl s0)) = (r2, s2)"
      by (cases "(if isolationLevelOf options \<noteq> None
                 then clientQuery cl (gc_isolationQuery env) (registerLease options env cl s0)
                 else (Inr (), registerLease options env cl s0))")
    have i2: "pm_inv M s2"
      using q1 clientQuery_inv [OF i1, of cl "gc_isolationQuery env"] i1
      by (auto split: if_splits)
    obtain r3 s3 where q2: "(if readOnlyOf options \<noteq> None
                      then clientQuery cl (gc_readOnlyQuery env) s2 else (Inr (), s2)) = (r3, s3)"
      by (cases "(if readOnlyOf options \<noteq> None
                      then clientQuery cl (gc_readOnlyQuery env) s2 else (Inr (), s2))")
    have i3: "pm_inv M s3"
      using q2 clientQuery_inv [OF i2, of cl "gc_readOnlyQuery env"] i2
      by (auto split: if_splits)
    show ?thesis
      using c Inr q1 q2 i2 i3
      by (cases r2; cases r3) (simp_all add: getConnection_def getConnection_catch_inv)
  qed
qed

subsection \<open>Runs\<close>

lemma dispose_inv: "pm_inv M s \<Longrightarrow> pm_inv M (dispose s)"
  by (simp add: pm_inv_def dispose_def pool_end_def pool_inv_def)

lemma resetMetrics_inv: "pm_inv M s \<Longrightarrow> pm_inv M (resetMetrics now s)"
  by (simp add: pm_inv_def resetMetrics_def initializeMetrics_def tracked_clients_def Let_def)

lemma pm_step_inv:
  "pm_inv M s \<Longrightarrow> fresh_ids [op] s \<Longrightarrow> pm_inv M (pm_step op s)"
  by (cases op)
     (simp_all add: getConnection_inv releaseConnection_def performClientRelease_inv
        clientQuery_inv fireTimer_inv clientErrorListener_def dispose_inv resetMetrics_inv)

lemma fresh_ids_Cons: "fresh_ids (op # ops) s = (fresh_ids [op] s \<and> fresh_ids ops (pm_step op s))"
  by (cases op) simp_all

lemma pm_run_inv: "pm_inv M s \<Longrightarrow> fresh_ids ops s \<Longrightarrow> pm_inv M (pm_run ops s)"
proof (induction ops arbitrary: s)
  case Nil
  then show ?case by simp
next
  case (Cons op ops)
  from Cons.prems(2) have f1: "fresh_ids [op] s" and f2: "fresh_ids ops (pm_step op s)"
    by (simp_all add: fresh_ids_Cons [of op ops])
  from Cons.IH [OF pm_step_inv [OF Cons.prems(1) f1] f2] show ?case by simp
qed

lemma pool_max_connect: "connect choice s = (res, s') \<Longrightarrow> pool_max (pool s') = pool_max (pool s)"
  by (auto simp: connect_def pool_connect_def split: sum.splits prod.splits if_splits connect_choice.splits)

lemma new_inv: "pm_inv (maxConnections cfg) (newConnectionPoolManager cfg now)"
  by (simp add: pm_inv_def newConnectionPoolManager_def initializeMetrics_def pool_inv_def
      tracked_clients_def new_client_def)

subsection \<open>Releasing twice, releasing a tracked handle\<close>

lemma released_untracked: "\<not> is_tracked c (performClientRelease c e f t s)"
proof (cases "is_tracked c s")
  case False
  then show ?thesis by (auto simp add: untracked_release is_tracked_def split: option.splits)
next
  case True
  then obtain i a where i: "connectionId (clients s c) = Some i"
    and a: "connectionTimestamps s i = Some a"
    by (auto simp: is_tracked_def split: option.splits)
  show ?thesis by (simp add: tracked_release [OF i a] is_tracked_def)
qed

lemma released_flags:
  "originalQuery (clients (performClientRelease c e f t s) c) = None
   \<and> \<not> originalRelease (clients (performClientRelease c e f t s) c)"
proof (cases "is_tracked c s")
  case False
  then show ?thesis by (simp add: untracked_release)
next
  case True
  then obtain i a where i: "connectionId (clients s c) = Some i"
    and a: "connectionTimestamps s i = Some a"
    by (auto simp: is_tracked_def split: option.splits)
  show ?thesis by (simp add: tracked_release [OF i a])
qed

lemma release_twice:
  "performClientRelease c e' f' t' (performClientRelease c e f t s) = performClientRelease c e f t s"
  using released_flags [of c e f t s]
  by (simp add: untracked_release [OF released_untracked]
        restoreOriginalQuery_def callOriginalRelease_def)

lemma tracked_release_timer:
  assumes "connectionId (clients s c) = Some i" and "connectionTimestamps s i = Some a"
    and "queryTimeoutTimer (leases s a) = Some h"
  shows "timers (performClientRelease c e f t s) h = None"
  using assms(3) by (simp add: tracked_release [OF assms(1,2)])


subsection \<open>Pending timers\<close>

lemma timer_inv_ended: "pool_ended (pool s) \<Longrightarrow> timer_inv s"
  by (simp add: timer_inv_def)

lemma timer_inv_pendingD:
  "timer_inv s \<Longrightarrow> \<not> pool_ended (pool s) \<Longrightarrow> timers s t = Some (c, pid) \<Longrightarrow>
     t < nextTimer s
     \<and> (\<exists>a. originalQuery (clients s c) = Some a
            \<and> currentQueryTimeoutTimer (leases s a) = Some t
            \<and> queryTimeoutTimer (leases s a) = Some t)"
  unfolding timer_inv_def by meson

lemma timer_inv_wrapperD:
  "timer_inv s \<Longrightarrow> \<not> pool_ended (pool s) \<Longrightarrow> originalQuery (clients s c) = Some a \<Longrightarrow>
     a < nextLease s \<and> originalRelease (clients s c)
     \<and> (\<exists>i. connectionId (clients s c) = Some i \<and> connectionTimestamps s i = Some a)"
  unfolding timer_inv_def by meson

lemma timer_inv_wrapper_uniqD:
  "timer_inv s \<Longrightarrow> \<not> pool_ended (pool s) \<Longrightarrow> originalQuery (clients s c) = Some a \<Longrightarrow>
     originalQuery (clients s c') = Some a \<Longrightarrow> c = c'"
  unfolding timer_inv_def by meson

lemma timer_inv_trackedD:
  "timer_inv s \<Longrightarrow> \<not> pool_ended (pool s) \<Longrightarrow> connectionId (clients s c) = Some i \<Longrightarrow>
     connectionTimestamps s i = Some a \<Longrightarrow> originalQuery (clients s c) = Some a"
  unfolding timer_inv_def by meson

lemma timer_invI:
  assumes "\<And>t c pid. \<not> pool_ended (pool s) \<Longrightarrow> timers s t = Some (c, pid) \<Longrightarrow>
             t < nextTimer s
             \<and> (\<exists>a. originalQuery (clients s c) = Some a
                    \<and> currentQueryTimeoutTimer (leases s a) = Some t
                    \<and> queryTimeoutTimer (leases s a) = Some t)"
    and "\<And>c a. \<not> pool_ended (pool s) \<Longrightarrow> originalQuery (clients s c) = Some a \<Longrightarrow>
             a < nextLease s \<and> originalRelease (clients s c)
             \<and> (\<exists>i. connectionId (clients s c) = Some i \<and> connectionTimestamps s i = Some a)"
    and "\<And>c c' a. \<not> pool_ended (pool s) \<Longrightarrow> originalQuery (clients s c) = Some a \<Longrightarrow>
             originalQuery (clients s c') = Some a \<Longrightarrow> c = c'"
    and "\<And>c i a. \<not> pool_ended (pool s) \<Longrightarrow> connectionId (clients s c) = Some i \<Longrightarrow>
             connectionTimestamps s i = Some a \<Longrightarrow> originalQuery (clients s c) = Some a"
  shows "timer_inv s"
proof (cases "pool_ended (pool s)")
  case True
  then show ?thesis by (rule timer_inv_ended)
next
  case False
  have a: "\<forall>t c pid. timers s t = Some (c, pid) \<longrightarrow>
            t < nextTimer s
            \<and> (\<exists>a. originalQuery (clients s c) = Some a
                   \<and> currentQueryTimeoutTimer (leases s a) = Some t
                   \<and> queryTimeoutTimer (leases s a) = Some t)"
    using assms(1) [OF False] by blast
  have b: "\<forall>c a. originalQuery (clients s c) = Some a \<longrightarrow>
            a < nextLease s \<and> originalRelease (clients s c)
            \<and> (\<exists>i. connectionId (clients s c) = Some i \<and> connectionTimestamps s i = Some a)"
    using assms(2) [OF False] by blast
  have c: "\<forall>c c' a. originalQuery (clients s c) = Some a \<and> originalQuery (clients s c') = Some a
            \<longrightarrow> c = c'"
    using assms(3) [OF False] by blast
  have d: "\<forall>c i a. connectionId (clients s c) = Some i \<and> connectionTimestamps s i = Some a
            \<longrightarrow> originalQuery (clients s c) = Some a"
    using assms(4) [OF False] by blast
  from a b c d show ?thesis unfolding timer_inv_def by blast
qed

text \<open>Changes that only touch fields the invariant does not read.\<close>

lemma timer_inv_cong:
  assumes "timers s' = timers s" and "nextTimer s' = nextTimer s" and "leases s' = leases s"
    and "nextLease s' = nextLease s" and "clients s' = clients s"
    and "connectionTimestamps s' = connectionTimestamps s"
    and "pool_ended (pool s') = pool_ended (pool s)"
  shows "timer_inv s' = timer_inv s"
  using assms by (simp add: timer_inv_def)

lemma clearTimeout_timer_inv: "timer_inv s \<Longrightarrow> timer_inv (clearTimeout t s)"
  unfolding timer_inv_def clearTimeout_def by (simp split: if_splits) meson

lemma clearTimeout_opt_timer_inv: "timer_inv s \<Longrightarrow> timer_inv (clearTimeout_opt t s)"
  by (cases t) (simp_all add: clearTimeout_opt_def clearTimeout_timer_inv)

lemma querySettle_timer_inv: "timer_inv s \<Longrightarrow> timer_inv (querySettle a s)"
  by (simp add: querySettle_def clearTimeout_opt_timer_inv)

lemma queryStart_fields [simp]:
  "clients (queryStart c a s) = clients s"
  "connectionTimestamps (queryStart c a s) = connectionTimestamps s"
  "pool (queryStart c a s) = pool s"
  "nextLease (queryStart c a s) = nextLease s"
  "nextTimer (queryStart c a s) = Suc (nextTimer s)"
  "metrics (queryStart c a s) = metrics s"
  "emitted (queryStart c a s) = emitted s"
  "cancelRequests (queryStart c a s) = cancelRequests s"
  "errorListeners (queryStart c a s) = errorListeners s"
  "timers (queryStart c a s)
     = ((case currentQueryTimeoutTimer (leases s a) of None \<Rightarrow> timers s
         | Some h \<Rightarrow> (timers s)(h := None)))
       (nextTimer s \<mapsto> (c, processID (clients s c)))"
  "leases (queryStart c a s)
     = (leases s)(a := (leases s a)\<lparr>queryTimeoutTimer := Some (nextTimer s),
                                     currentQueryTimeoutTimer := Some (nextTimer s)\<rparr>)"
  by (simp_all add: queryStart_def Let_def clearTimeout_opt_def clearTimeout_def
      split: option.splits)

lemma queryStart_timer_inv:
  assumes inv: "timer_inv s" and w: "originalQuery (clients s c) = Some a"
  shows "timer_inv (queryStart c a s)"
proof (rule timer_invI)
  let ?s = "queryStart c a s"
  assume "\<not> pool_ended (pool ?s)"
  then have ne: "\<not> pool_ended (pool s)" by simp
  show "t < nextTimer ?s
        \<and> (\<exists>a'. originalQuery (clients ?s c') = Some a'
               \<and> currentQueryTimeoutTimer (leases ?s a') = Some t
               \<and> queryTimeoutTimer (leases ?s a') = Some t)"
    if p: "timers ?s t = Some (c', pid)" for t c' pid
  proof (cases "t = nextTimer s")
    case True
    with p w show ?thesis by simp
  next
    case False
    with p have old: "timers s t = Some (c', pid)"
      and notcur: "currentQueryTimeoutTimer (leases s a) \<noteq> Some t"
      by (auto split: option.splits if_splits)
    from timer_inv_pendingD [OF inv ne old] obtain a' where
      lt: "t < nextTimer s" and w': "originalQuery (clients s c') = Some a'"
      and cur: "currentQueryTimeoutTimer (leases s a') = Some t"
      and reg: "queryTimeoutTimer (leases s a') = Some t"
      by blast
    from cur notcur have "a' \<noteq> a" by auto
    with lt w' cur reg show ?thesis by simp
  qed
  show "a' < nextLease ?s \<and> originalRelease (clients ?s c')
        \<and> (\<exists>i. connectionId (clients ?s c') = Some i \<and> connectionTimestamps ?s i = Some a')"
    if "originalQuery (clients ?s c') = Some a'" for c' a'
    using that timer_inv_wrapperD [OF inv ne, of c' a'] by simp
  show "c1 = c2"
    if "originalQuery (clients ?s c1) = Some a'" "originalQuery (clients ?s c2) = Some a'"
    for c1 c2 a'
    using that timer_inv_wrapper_uniqD [OF inv ne, of c1 a' c2] by simp
  show "originalQuery (clients ?s c') = Some a'"
    if "connectionId (clients ?s c') = Some i" "connectionTimestamps ?s i = Some a'" for c' i a'
    using that timer_inv_trackedD [OF inv ne, of c' i a'] by simp
qed

lemma issueQuery_timer_inv: "timer_inv s \<Longrightarrow> timer_inv (issueQuery c s)"
  by (cases "originalQuery (clients s c)") (simp_all add: issueQuery_def queryStart_timer_inv)

lemma registerLease_more_fields [simp]:
  "leases (registerLease options env c s)
     = (leases s)(nextLease s :=
          \<lparr>acquiredAt = gc_acquisitionStartTime env, lease_options = options,
           lease_processID = processID (clients s c), queryTimeoutTimer = None,
           currentQueryTimeoutTimer = None\<rparr>)"
  "nextLease (registerLease options env c s) = Suc (nextLease s)"
  "originalQuery (clients (registerLease options env c s) r)
     = (if r = c then Some (nextLease s) else originalQuery (clients s r))"
  "originalRelease (clients (registerLease options env c s) r)
     = (if r = c then True else originalRelease (clients s r))"
  by (simp_all add: registerLease_def Let_def)

lemma registerLease_timer_inv:
  assumes pinv: "pm_inv M s" and inv: "timer_inv s" and ne: "\<not> pool_ended (pool s)"
    and cnone: "connectionId (clients s c) = None"
    and fresh: "connectionTimestamps s (gc_internalConnectionId env) = None"
  shows "timer_inv (registerLease options env c s)"
proof (rule timer_invI)
  let ?s = "registerLease options env c s"
  have nowrap: "originalQuery (clients s c) = None"
  proof (cases "originalQuery (clients s c)")
    case (Some a)
    from timer_inv_wrapperD [OF inv ne Some] cnone show ?thesis by auto
  qed simp
  show "t < nextTimer ?s
        \<and> (\<exists>a. originalQuery (clients ?s c') = Some a
               \<and> currentQueryTimeoutTimer (leases ?s a) = Some t
               \<and> queryTimeoutTimer (leases ?s a) = Some t)"
    if p: "timers ?s t = Some (c', pid)" for t c' pid
  proof -
    from p have old: "timers s t = Some (c', pid)" by simp
    from timer_inv_pendingD [OF inv ne old] obtain a where
      lt: "t < nextTimer s" and w: "originalQuery (clients s c') = Some a"
      and cur: "currentQueryTimeoutTimer (leases s a) = Some t"
      and reg: "queryTimeoutTimer (leases s a) = Some t"
      by blast
    from w nowrap have cc: "c' \<noteq> c" by auto
    from timer_inv_wrapperD [OF inv ne w] have "a \<noteq> nextLease s" by auto
    with lt w cur reg cc show ?thesis by simp
  qed
  show "a < nextLease ?s \<and> originalRelease (clients ?s c')
        \<and> (\<exists>i. connectionId (clients ?s c') = Some i \<and> connectionTimestamps ?s i = Some a)"
    if w: "originalQuery (clients ?s c') = Some a" for c' a
  proof (cases "c' = c")
    case True
    with w show ?thesis by simp
  next
    case False
    with w have w0: "originalQuery (clients s c') = Some a" by simp
    from timer_inv_wrapperD [OF inv ne w0] obtain i where
      "a < nextLease s" "originalRelease (clients s c')"
      "connectionId (clients s c') = Some i" "connectionTimestamps s i = Some a"
      by blast
    with False fresh show ?thesis by (auto simp: less_Suc_eq)
  qed
  show "c1 = c2"
    if w1: "originalQuery (clients ?s c1) = Some a" and w2: "originalQuery (clients ?s c2) = Some a"
    for c1 c2 a
  proof -
    have old: "a < nextLease s" if "c' \<noteq> c" "originalQuery (clients s c') = Some a" for c'
      using timer_inv_wrapperD [OF inv ne that(2)] by simp
    show ?thesis
      using w1 w2 old [of c1] old [of c2] timer_inv_wrapper_uniqD [OF inv ne, of c1 a c2]
      by (auto split: if_splits)
  qed
  show "originalQuery (clients ?s c') = Some a"
    if "connectionId (clients ?s c') = Some i" "connectionTimestamps ?s i = Some a" for c' i a
    using that timer_inv_trackedD [OF inv ne, of c' i a] fresh
      pm_inv_trackedD [OF pinv ne, of c' "gc_internalConnectionId env"]
    by (auto split: if_splits)
qed

lemma no_wrapper_without_id:
  assumes "timer_inv s" and "\<not> pool_ended (pool s)" and "connectionId (clients s c) = None"
  shows "originalQuery (clients s c) = None"
proof (cases "originalQuery (clients s c)")
  case (Some a)
  from timer_inv_wrapperD [OF assms(1,2) Some] assms(3) show ?thesis by auto
qed simp

lemma no_wrapper_untracked:
  assumes "timer_inv s" and "\<not> pool_ended (pool s)" and "\<not> is_tracked c s"
  shows "originalQuery (clients s c) = None"
proof (cases "originalQuery (clients s c)")
  case (Some a)
  from timer_inv_wrapperD [OF assms(1,2) Some] assms(3) show ?thesis
    by (auto simp: is_tracked_def)
qed simp

lemma connect_shape:
  assumes "connect choice s = (Inr c, s')"
  shows "timers s' = timers s \<and> nextTimer s' = nextTimer s \<and> leases s' = leases s
       \<and> nextLease s' = nextLease s \<and> connectionTimestamps s' = connectionTimestamps s
       \<and> emitted s' = emitted s \<and> cancelRequests s' = cancelRequests s
       \<and> errorListeners s' = errorListeners s
       \<and> (\<forall>r. r \<noteq> c \<longrightarrow> clients s' r = clients s r)
       \<and> (clients s' c = clients s c
            \<or> (connectionId (clients s' c) = None \<and> originalQuery (clients s' c) = None
                \<and> \<not> originalRelease (clients s' c)))
       \<and> set (pool_idle (pool s')) \<subseteq> set (pool_idle (pool s))"
  using assms
  by (auto simp: connect_def pool_connect_def new_client_def
      split: sum.splits prod.splits if_splits connect_choice.splits)

lemma connect_timer_inv:
  assumes pinv: "pm_inv M s" and inv: "timer_inv s" and c: "connect choice s = (res, s')"
  shows "timer_inv s'"
proof (cases res)
  case (Inl m)
  with c have "s' = s" by (simp add: connect_fail)
  with inv show ?thesis by simp
next
  case (Inr cl)
  note ok = connect_ok [OF pinv c [unfolded Inr]]
  note sh = connect_shape [OF c [unfolded Inr]]
  from ok have ne': "\<not> pool_ended (pool s')" by simp
  have ne: "\<not> pool_ended (pool s)"
    using c Inr by (auto simp: connect_def pool_connect_def split: sum.splits prod.splits if_splits)
  have cnone: "connectionId (clients s cl) = None"
  proof (cases "connectionId (clients s cl)")
    case (Some i)
    from pm_inv_trackedD [OF pinv ne Some] have "cl \<in> set (pool_leased (pool s))" by simp
    moreover have "cl \<notin> set (pool_leased (pool s))"
      using c Inr pm_inv_poolD [OF pinv]
      by (auto simp: connect_def split: sum.splits prod.splits dest: pool_connect_inv)
    ultimately show ?thesis by simp
  qed simp
  have nowrap: "originalQuery (clients s cl) = None"
    by (rule no_wrapper_without_id [OF inv ne cnone])
  have oq: "originalQuery (clients s' r) = originalQuery (clients s r)" for r
    using sh nowrap by (cases "r = cl") (auto simp: new_client_def)
  have cid: "connectionId (clients s' r) = connectionId (clients s r)" for r
    using sh cnone by (cases "r = cl") (auto simp: new_client_def)
  have orl: "originalRelease (clients s' r) = originalRelease (clients s r)" if "r \<noteq> cl" for r
    using sh that by simp
  show ?thesis
  proof (rule timer_invI)
    show "t < nextTimer s'
          \<and> (\<exists>a. originalQuery (clients s' c') = Some a
                 \<and> currentQueryTimeoutTimer (leases s' a) = Some t
                 \<and> queryTimeoutTimer (leases s' a) = Some t)"
      if "timers s' t = Some (c', pid)" for t c' pid
      using that timer_inv_pendingD [OF inv ne, of t c' pid] sh by (simp add: oq)
    show "a < nextLease s' \<and> originalRelease (clients s' c')
          \<and> (\<exists>i. connectionId (clients s' c') = Some i \<and> connectionTimestamps s' i = Some a)"
      if w: "originalQuery (clients s' c') = Some a" for c' a
    proof -
      from w have w0: "originalQuery (clients s c') = Some a" by (simp add: oq)
      with nowrap have "c' \<noteq> cl" by auto
      with timer_inv_wrapperD [OF inv ne w0] sh show ?thesis by (simp add: cid orl)
    qed
    show "c1 = c2"
      if "originalQuery (clients s' c1) = Some a" "originalQuery (clients s' c2) = Some a"
      for c1 c2 a
      using that timer_inv_wrapper_uniqD [OF inv ne, of c1 a c2] by (simp add: oq)
    show "originalQuery (clients s' c') = Some a"
      if "connectionId (clients s' c') = Some i" "connectionTimestamps s' i = Some a" for c' i a
      using that timer_inv_trackedD [OF inv ne, of c' i a] sh by (simp add: oq cid)
  qed
qed

lemma cancelBackend_timer_inv:
  assumes pinv: "pm_inv M s" and inv: "timer_inv s"
  shows "timer_inv (cancelBackend pid choice s)"
proof -
  obtain res s1 where c: "connect choice s = (res, s1)" by (cases "connect choice s")
  from connect_timer_inv [OF pinv inv c] have i1: "timer_inv s1" .
  show ?thesis
  proof (cases res)
    case (Inl m)
    with c i1 show ?thesis by (simp add: cancelBackend_def)
  next
    case (Inr cc)
    have "timer_inv (cancelBackend pid choice s) = timer_inv s1"
      using c Inr
      by (intro timer_inv_cong) (simp_all add: cancelBackend_def pool_release_fields)
    with i1 show ?thesis by simp
  qed
qed

lemma clearLeaseTimer_leases [simp]:
  "leases (clearLeaseTimer a s)
     = (case queryTimeoutTimer (leases s a) of None \<Rightarrow> leases s
        | Some t \<Rightarrow> (leases s)(a := (leases s a)\<lparr>queryTimeoutTimer := None\<rparr>))"
  "nextLease (clearLeaseTimer a s) = nextLease s"
  by (simp_all add: clearLeaseTimer_def clearTimeout_def split: option.splits)

lemma more_release_fields [simp]:
  "nextLease (restoreOriginalQuery c s) = nextLease s"
  "nextLease (callOriginalRelease c d s) = nextLease s"
  "nextLease (recordRelease c i a e now s) = nextLease s"
  "nextLease (emitConnectionStatus s) = nextLease s"
  by (simp_all add: restoreOriginalQuery_def callOriginalRelease_def recordRelease_def
      emitConnectionStatus_def Let_def)

lemma performClientRelease_timer_inv:
  assumes pinv: "pm_inv M s" and inv: "timer_inv s"
  shows "timer_inv (performClientRelease c e f now s)"
proof (cases "pool_ended (pool s)")
  case True
  have "pool_ended (pool (performClientRelease c e f now s))"
  proof (cases "is_tracked c s")
    case False
    with True show ?thesis by (simp add: untracked_release_core pool_release_fields)
  next
    case tr: True
    then obtain i a where "connectionId (clients s c) = Some i" "connectionTimestamps s i = Some a"
      by (auto simp: is_tracked_def split: option.splits)
    from tracked_release_core(4) [OF this] True show ?thesis by (simp add: pool_release_fields)
  qed
  then show ?thesis by (rule timer_inv_ended)
next
  case ne: False
  show ?thesis
  proof (cases "is_tracked c s")
    case False
    have nowrap: "originalQuery (clients s c) = None"
      by (rule no_wrapper_untracked [OF inv ne False])
    let ?s = "performClientRelease c e f now s"
    have eq: "?s = callOriginalRelease c (e \<noteq> None \<or> f = Some True) (restoreOriginalQuery c s)"
      by (rule untracked_release [OF False])
    show ?thesis
    proof (rule timer_invI)
      show "t < nextTimer ?s
            \<and> (\<exists>a. originalQuery (clients ?s c') = Some a
                   \<and> currentQueryTimeoutTimer (leases ?s a) = Some t
                   \<and> queryTimeoutTimer (leases ?s a) = Some t)"
        if "timers ?s t = Some (c', pid)" for t c' pid
      proof -
        from that have old: "timers s t = Some (c', pid)" by (simp add: eq)
        from timer_inv_pendingD [OF inv ne old] nowrap show ?thesis
          by (auto simp: eq)
      qed
      show "a < nextLease ?s \<and> originalRelease (clients ?s c')
            \<and> (\<exists>i. connectionId (clients ?s c') = Some i \<and> connectionTimestamps ?s i = Some a)"
        if "originalQuery (clients ?s c') = Some a" for c' a
      proof -
        from that nowrap have w0: "originalQuery (clients s c') = Some a" and cc: "c' \<noteq> c"
          by (auto simp: eq split: if_splits)
        from timer_inv_wrapperD [OF inv ne w0] cc show ?thesis by (simp add: eq)
      qed
      show "c1 = c2"
        if "originalQuery (clients ?s c1) = Some a" "originalQuery (clients ?s c2) = Some a"
        for c1 c2 a
        using that timer_inv_wrapper_uniqD [OF inv ne, of c1 a c2]
        by (auto simp: eq split: if_splits)
      show "originalQuery (clients ?s c') = Some a"
        if "connectionId (clients ?s c') = Some i" "connectionTimestamps ?s i = Some a" for c' i a
      proof -
        from that have t0: "connectionId (clients s c') = Some i" "connectionTimestamps s i = Some a"
          by (simp_all add: eq)
        from timer_inv_trackedD [OF inv ne t0] nowrap show ?thesis
          by (auto simp: eq)
      qed
    qed
  next
    case True
    then obtain i a where i: "connectionId (clients s c) = Some i"
      and a: "connectionTimestamps s i = Some a"
      by (auto simp: is_tracked_def split: option.splits)
    let ?s = "performClientRelease c e f now s"
    note eq = tracked_release [OF i a, of e f now]
    have wc: "originalQuery (clients s c) = Some a"
      by (rule timer_inv_trackedD [OF inv ne i a])
    have other_lease: "a' \<noteq> a" if "c' \<noteq> c" "originalQuery (clients s c') = Some a'" for c' a'
      using timer_inv_wrapper_uniqD [OF inv ne that(2), of c] wc that(1) by auto
    have other_id: "i' \<noteq> i" if "c' \<noteq> c" "connectionId (clients s c') = Some i'" for c' i'
      using pm_inv_uniqD [OF pinv ne that(2), of c] i that(1) by auto
    have tm: "timers ?s t = (if queryTimeoutTimer (leases s a) = Some t then None else timers s t)"
      for t
      by (simp add: eq split: option.splits)
    have ls: "leases ?s a' = leases s a'" if "a' \<noteq> a" for a'
      using that by (simp add: eq split: option.splits)
    show ?thesis
    proof (rule timer_invI)
      show "t < nextTimer ?s
            \<and> (\<exists>a'. originalQuery (clients ?s c') = Some a'
                   \<and> currentQueryTimeoutTimer (leases ?s a') = Some t
                   \<and> queryTimeoutTimer (leases ?s a') = Some t)"
        if p: "timers ?s t = Some (c', pid)" for t c' pid
      proof -
        from p have old: "timers s t = Some (c', pid)"
          and notreg: "queryTimeoutTimer (leases s a) \<noteq> Some t"
          by (auto simp: tm split: if_splits)
        from timer_inv_pendingD [OF inv ne old] obtain a' where
          lt: "t < nextTimer s" and w': "originalQuery (clients s c') = Some a'"
          and cur: "currentQueryTimeoutTimer (leases s a') = Some t"
          and reg: "queryTimeoutTimer (leases s a') = Some t"
          by blast
        from reg notreg have aa: "a' \<noteq> a" by auto
        with w' wc have cc: "c' \<noteq> c" by auto
        have "nextTimer ?s = nextTimer s" by (simp add: eq)
        moreover have "originalQuery (clients ?s c') = Some a'" using cc w' by (simp add: eq)
        ultimately show ?thesis using lt cur reg ls [OF aa] by auto
      qed
      show "a' < nextLease ?s \<and> originalRelease (clients ?s c')
            \<and> (\<exists>i'. connectionId (clients ?s c') = Some i' \<and> connectionTimestamps ?s i' = Some a')"
        if w: "originalQuery (clients ?s c') = Some a'" for c' a'
      proof -
        from w have cc: "c' \<noteq> c" and w0: "originalQuery (clients s c') = Some a'"
          by (auto simp: eq split: if_splits)
        from timer_inv_wrapperD [OF inv ne w0] obtain i' where
          "a' < nextLease s" "originalRelease (clients s c')"
          "connectionId (clients s c') = Some i'" "connectionTimestamps s i' = Some a'"
          by blast
        with cc other_id [OF cc] show ?thesis by (auto simp: eq)
      qed
      show "c1 = c2"
        if "originalQuery (clients ?s c1) = Some a'" "originalQuery (clients ?s c2) = Some a'"
        for c1 c2 a'
        using that timer_inv_wrapper_uniqD [OF inv ne, of c1 a' c2]
        by (auto simp: eq split: if_splits)
      show "originalQuery (clients ?s c') = Some a'"
        if "connectionId (clients ?s c') = Some i'" "connectionTimestamps ?s i' = Some a'"
        for c' i' a'
      proof -
        from that have cc: "c' \<noteq> c" and t0: "connectionId (clients s c') = Some i'"
          by (auto simp: eq split: if_splits)
        from that(2) other_id [OF cc t0] have "connectionTimestamps s i' = Some a'"
          by (simp add: eq)
        from timer_inv_trackedD [OF inv ne t0 this] cc show ?thesis by (simp add: eq)
      qed
    qed
  qed
qed

lemma emit_error_timer_inv: "emit_error e s = Inr s' \<Longrightarrow> timer_inv s' = timer_inv s"
proof -
  assume "emit_error e s = Inr s'"
  then have s': "s' = s\<lparr>emitted := emitted s @ [ErrorEvent e]\<rparr>"
    by (auto simp: emit_error_def split: if_splits)
  show ?thesis unfolding s' by (rule timer_inv_cong) simp_all
qed

lemma queryTimeoutCallback_timer_inv:
  assumes pinv: "pm_inv M s" and inv: "timer_inv s"
  shows "timer_inv (snd (queryTimeoutCallback c pid choice now s))"
proof (cases "emit_error (DatabaseConnectionError ''Query timeout detected'') s")
  case (Inl e)
  with inv show ?thesis by (simp add: queryTimeoutCallback_def)
next
  case (Inr s1)
  from emit_error_inv [OF Inr] pinv have p1: "pm_inv M s1" by simp
  from emit_error_timer_inv [OF Inr] inv have i1: "timer_inv s1" by simp
  let ?s2 = "case pid of None \<Rightarrow> s1 | Some p \<Rightarrow> if p = 0 then s1 else cancelBackend p choice s1"
  have p2: "pm_inv M ?s2" using p1 by (simp add: cancelBackend_inv split: option.splits)
  have i2: "timer_inv ?s2"
    using p1 i1 by (simp add: cancelBackend_timer_inv split: option.splits)
  show ?thesis
    using performClientRelease_timer_inv [OF p2 i2]
    by (simp add: queryTimeoutCallback_def Inr Let_def)
qed

lemma fireTimer_timer_inv:
  assumes pinv: "pm_inv M s" and inv: "timer_inv s"
  shows "timer_inv (fireTimer t choice now s)"
proof (cases "timers s t")
  case None
  with inv show ?thesis by (simp add: fireTimer_def)
next
  case (Some cb)
  have p1: "pm_inv M (clearTimeout t s)" using pinv by simp
  have i1: "timer_inv (clearTimeout t s)" using inv by (rule clearTimeout_timer_inv)
  show ?thesis
    using Some queryTimeoutCallback_timer_inv [OF p1 i1]
    by (simp add: fireTimer_def split: prod.splits)
qed

lemma clientQuery_timer_inv:
  assumes pinv: "pm_inv M s" and inv: "timer_inv s"
  shows "timer_inv (snd (clientQuery c outcome s))"
proof (cases "originalQuery (clients s c)")
  case None
  with inv show ?thesis by (cases outcome) (simp_all add: clientQuery_def)
next
  case (Some a)
  have p1: "pm_inv M (queryStart c a s)" using pinv by simp
  have i1: "timer_inv (queryStart c a s)" by (rule queryStart_timer_inv [OF inv Some])
  show ?thesis
    using Some i1 fireTimer_timer_inv [OF p1 i1]
    by (cases outcome) (simp_all add: clientQuery_def Let_def querySettle_timer_inv)
qed

lemma getConnection_catch_timer_inv:
  assumes inv: "timer_inv s"
  shows "timer_inv (snd (getConnection_catch e env now s))"
proof -
  let ?s1 = "s\<lparr>metrics := addHistory Failed_acquire now (Some (gc_internalConnectionId env))
                 (Some (now - gc_acquisitionStartTime env)) (Some (message e))
                 ((metrics s)\<lparr>failedAcquisitions := failedAcquisitions (metrics s) + 1\<rparr>)\<rparr>"
  have i1: "timer_inv ?s1 = timer_inv s" by (rule timer_inv_cong) simp_all
  show ?thesis
  proof (cases "emit_error e ?s1")
    case (Inl thrown)
    with inv i1 show ?thesis by (simp add: getConnection_catch_def Let_def)
  next
    case (Inr s2)
    from emit_error_timer_inv [OF Inr] inv i1 show ?thesis
      by (simp add: getConnection_catch_def Let_def Inr)
  qed
qed

lemma getConnection_timer_inv:
  assumes pinv: "pm_inv M s" and inv: "timer_inv s"
    and fresh: "connectionTimestamps s (gc_internalConnectionId env) = None"
  shows "timer_inv (snd (getConnection options env s))"
proof -
  obtain res s0 where c: "connect (gc_connect env) s = (res, s0)"
    by (cases "connect (gc_connect env) s")
  from connect_timer_inv [OF pinv inv c] have i0: "timer_inv s0" .
  show ?thesis
  proof (cases res)
    case (Inl m)
    with c i0 show ?thesis by (simp add: getConnection_def getConnection_catch_timer_inv)
  next
    case (Inr cl)
    note ok = connect_ok [OF pinv c [unfolded Inr]]
    from ok have p0: "pm_inv M s0" and ne0: "\<not> pool_ended (pool s0)"
      and cnone: "connectionId (clients s0 cl) = None"
      and fresh0: "connectionTimestamps s0 (gc_internalConnectionId env) = None"
      using fresh by simp_all
    have p1: "pm_inv M (registerLease options env cl s0)"
      using ok fresh by (intro registerLease_inv) simp_all
    have i1: "timer_inv (registerLease options env cl s0)"
      by (rule registerLease_timer_inv [OF p0 i0 ne0 cnone fresh0])
    obtain r2 s2 where q1: "(if isolationLevelOf options \<noteq> None
                 then clientQuery cl (gc_isolationQuery env) (registerLease options env cl s0)
                 else (Inr (), registerLease options env cl s0)) = (r2, s2)"
      by (cases "(if isolationLevelOf options \<noteq> None
                 then clientQuery cl (gc_isolationQuery env) (registerLease options env cl s0)
                 else (Inr (), registerLease options env cl s0))")
    have p2: "pm_inv M s2"
      using q1 clientQuery_inv [OF p1, of cl "gc_isolationQuery env"] p1
      by (auto split: if_splits)
    have i2: "timer_inv s2"
      using q1 clientQuery_timer_inv [OF p1 i1, of cl "gc_isolationQuery env"] i1
      by (auto split: if_splits)
    obtain r3 s3 where q2: "(if readOnlyOf options \<noteq> None
                      then clientQuery cl (gc_readOnlyQuery env) s2 else (Inr (), s2)) = (r3, s3)"
      by (cases "(if readOnlyOf options \<noteq> None
                      then clientQuery cl (gc_readOnlyQuery env) s2 else (Inr (), s2))")
    have i3: "timer_inv s3"
      using q2 clientQuery_timer_inv [OF p2 i2, of cl "gc_readOnlyQuery env"] i2
      by (auto split: if_splits)
    show ?thesis
      using c Inr q1 q2 i2 i3
      by (cases r2; cases r3) (simp_all add: getConnection_def getConnection_catch_timer_inv)
  qed
qed

lemma dispose_timer_inv: "timer_inv (dispose s)"
  by (rule timer_inv_ended) (simp add: dispose_def pool_end_def)

lemma resetMetrics_timer_inv: "timer_inv (resetMetrics now s) = timer_inv s"
  by (rule timer_inv_cong) (simp_all add: resetMetrics_def Let_def)

lemma onError_timer_inv: "timer_inv (onError s) = timer_inv s"
  by (rule timer_inv_cong) (simp_all add: onError_def)

lemma pm_step_timer_inv:
  "pm_inv M s \<Longrightarrow> timer_inv s \<Longrightarrow> fresh_ids [op] s \<Longrightarrow> timer_inv (pm_step op s)"
  by (cases op)
     (simp_all add: getConnection_timer_inv releaseConnection_def performClientRelease_timer_inv
        clientQuery_timer_inv fireTimer_timer_inv clientErrorListener_def dispose_timer_inv
        resetMetrics_timer_inv onError_timer_inv issueQuery_timer_inv querySettle_timer_inv)

lemma pm_run_timer_inv:
  "pm_inv M s \<Longrightarrow> timer_inv s \<Longrightarrow> fresh_ids ops s \<Longrightarrow> timer_inv (pm_run ops s)"
proof (induction ops arbitrary: s)
  case Nil
  then show ?case by simp
next
  case (Cons op ops)
  from Cons.prems(3) have f1: "fresh_ids [op] s" and f2: "fresh_ids ops (pm_step op s)"
    by (simp_all add: fresh_ids_Cons [of op ops])
  from Cons.IH [OF pm_step_inv [OF Cons.prems(1) f1] pm_step_timer_inv [OF Cons.prems(1,2) f1] f2]
  show ?case by simp
qed

lemma new_timer_inv: "timer_inv (newConnectionPoolManager cfg now)"
  by (simp add: timer_inv_def newConnectionPoolManager_def new_client_def)

text \<open>In a reachable state, releasing a tracked handle leaves no pending timer whose
  callback would act on that handle.\<close>

lemma tracked_release_no_pending_timer:
  assumes fresh: "fresh_ids ops (newConnectionPoolManager cfg now)"
    and tr: "is_tracked c (pm_run ops (newConnectionPoolManager cfg now))"
  shows "timers (performClientRelease c e f t (pm_run ops (newConnectionPoolManager cfg now))) h
           \<noteq> Some (c, pid)"
proof
  let ?s = "pm_run ops (newConnectionPoolManager cfg now)"
  let ?s' = "performClientRelease c e f t ?s"
  assume p: "timers ?s' h = Some (c, pid)"
  have pinv: "pm_inv (maxConnections cfg) ?s" by (rule pm_run_inv [OF new_inv fresh])
  have inv: "timer_inv ?s" by (rule pm_run_timer_inv [OF new_inv new_timer_inv fresh])
  have inv': "timer_inv ?s'" by (rule performClientRelease_timer_inv [OF pinv inv])
  from tr obtain i a where i: "connectionId (clients ?s c) = Some i"
    and a: "connectionTimestamps ?s i = Some a"
    by (auto simp: is_tracked_def split: option.splits)
  from pm_inv_endedD [OF pinv] a have ne: "\<not> pool_ended (pool ?s)" by auto
  have ne': "\<not> pool_ended (pool ?s')"
    using ne tracked_release_core(4) [OF i a, of e f t] by (simp add: pool_release_fields)
  from timer_inv_pendingD [OF inv' ne' p] released_flags [of c e f t ?s]
  show False by auto
qed

subsection \<open>Bookkeeping that holds whatever lease ids are drawn\<close>

lemma basic_invD:
  "basic_inv s \<Longrightarrow> 0 \<le> activeLeasedConnections (metrics s) \<and> pool_inv (pool s)"
  "basic_inv s \<Longrightarrow> originalRelease (clients s c) \<Longrightarrow> c \<in> set (pool_leased (pool s))"
  unfolding basic_inv_def by meson+

lemma basic_invI:
  assumes "0 \<le> activeLeasedConnections (metrics s)" and "pool_inv (pool s)"
    and "\<And>c. originalRelease (clients s c) \<Longrightarrow> c \<in> set (pool_leased (pool s))"
  shows "basic_inv s"
  unfolding basic_inv_def using assms by blast

lemma basic_inv_cong:
  assumes "activeLeasedConnections (metrics s') = activeLeasedConnections (metrics s)"
    and "pool s' = pool s"
    and "\<And>r. originalRelease (clients s' r) = originalRelease (clients s r)"
  shows "basic_inv s' = basic_inv s"
  using assms by (simp add: basic_inv_def)

lemma clearTimeout_basic [simp]: "basic_inv (clearTimeout t s) = basic_inv s"
  by (rule basic_inv_cong) (simp_all add: clearTimeout_def)

lemma clearTimeout_opt_basic [simp]: "basic_inv (clearTimeout_opt t s) = basic_inv s"
  by (cases t) (simp_all add: clearTimeout_opt_def)

lemma queryStart_basic [simp]: "basic_inv (queryStart c a s) = basic_inv s"
  by (rule basic_inv_cong) simp_all

lemma querySettle_basic [simp]: "basic_inv (querySettle a s) = basic_inv s"
  by (simp add: querySettle_def)

lemma issueQuery_basic [simp]: "basic_inv (issueQuery c s) = basic_inv s"
  by (simp add: issueQuery_def split: option.splits)

lemma onError_basic [simp]: "basic_inv (onError s) = basic_inv s"
  by (rule basic_inv_cong) (simp_all add: onError_def)

lemma emit_error_basic: "emit_error e s = Inr s' \<Longrightarrow> basic_inv s' = basic_inv s"
proof -
  assume "emit_error e s = Inr s'"
  then have s': "s' = s\<lparr>emitted := emitted s @ [ErrorEvent e]\<rparr>"
    by (auto simp: emit_error_def split: if_splits)
  show ?thesis unfolding s' by (rule basic_inv_cong) simp_all
qed

lemma restoreOriginalQuery_basic [simp]: "basic_inv (restoreOriginalQuery c s) = basic_inv s"
  by (rule basic_inv_cong) simp_all

lemma clearLeaseTimer_basic [simp]: "basic_inv (clearLeaseTimer a s) = basic_inv s"
  by (rule basic_inv_cong) simp_all

lemma emitConnectionStatus_basic [simp]: "basic_inv (emitConnectionStatus s) = basic_inv s"
  by (rule basic_inv_cong) simp_all

lemma recordRelease_basic: "basic_inv s \<Longrightarrow> basic_inv (recordRelease c i a e now s)"
  by (simp add: basic_inv_def)

lemma callOriginalRelease_basic: "basic_inv s \<Longrightarrow> basic_inv (callOriginalRelease c d s)"
  by (auto simp: basic_inv_def pool_release_inv pool_release_fields)

lemma performClientRelease_basic:
  assumes "basic_inv s"
  shows "basic_inv (performClientRelease c e f now s)"
proof (cases "is_tracked c s")
  case False
  show ?thesis
    using assms by (simp add: untracked_release [OF False] callOriginalRelease_basic)
next
  case True
  then obtain i a where "connectionId (clients s c) = Some i" "connectionTimestamps s i = Some a"
    by (auto simp: is_tracked_def split: option.splits)
  from tracked_release [OF this] assms show ?thesis
    by (simp add: callOriginalRelease_basic recordRelease_basic)
qed

lemma connect_basic:
  assumes inv: "basic_inv s" and c: "connect choice s = (res, s')"
  shows "basic_inv s'
       \<and> (\<forall>cl. res = Inr cl \<longrightarrow>
             cl \<in> set (pool_leased (pool s')) \<and> cl \<notin> set (pool_leased (pool s))
             \<and> \<not> originalRelease (clients s' cl)
             \<and> set (pool_leased (pool s')) = insert cl (set (pool_leased (pool s))))"
proof (cases res)
  case (Inl m)
  with c have "s' = s" by (simp add: connect_fail)
  with inv Inl show ?thesis by simp
next
  case (Inr cl)
  note sh = connect_shape [OF c [unfolded Inr]]
  from c Inr obtain created p' where pc: "pool_connect (pool s) choice = Inr (cl, created, p')"
    and pl: "pool s' = p'"
    by (auto simp: connect_def split: sum.splits prod.splits if_splits)
  note pool = pool_connect_inv [OF conjunct2 [OF basic_invD(1) [OF inv]] pc]
  from pool have notin: "cl \<notin> set (pool_leased (pool s))"
    and ins: "set (pool_leased (pool s')) = insert cl (set (pool_leased (pool s)))"
    and pinv: "pool_inv (pool s')"
    by (simp_all add: pl)
  have flag0: "\<not> originalRelease (clients s cl)"
    using basic_invD(2) [OF inv, of cl] notin by auto
  have flag: "originalRelease (clients s' r) = originalRelease (clients s r)" for r
    using sh flag0 by (cases "r = cl") auto
  have act: "activeLeasedConnections (metrics s') = activeLeasedConnections (metrics s)"
    using c Inr by (auto simp: connect_def split: sum.splits prod.splits if_splits)
  have "basic_inv s'"
  proof (rule basic_invI)
    show "0 \<le> activeLeasedConnections (metrics s')" using basic_invD(1) [OF inv] by (simp add: act)
    show "pool_inv (pool s')" by (rule pinv)
    show "r \<in> set (pool_leased (pool s'))" if "originalRelease (clients s' r)" for r
      using that basic_invD(2) [OF inv, of r] by (simp add: flag ins)
  qed
  with Inr notin ins flag flag0 show ?thesis by simp
qed

lemma cancelBackend_basic:
  assumes inv: "basic_inv s"
  shows "basic_inv (cancelBackend pid choice s)
       \<and> set (pool_leased (pool (cancelBackend pid choice s))) = set (pool_leased (pool s))
       \<and> (\<forall>r. originalRelease (clients (cancelBackend pid choice s) r)
                 = originalRelease (clients s r))
       \<and> connectionTimestamps (cancelBackend pid choice s) = connectionTimestamps s
       \<and> releasedConnections (metrics (cancelBackend pid choice s))
           = releasedConnections (metrics s)
       \<and> activeLeasedConnections (metrics (cancelBackend pid choice s))
           = activeLeasedConnections (metrics s)
       \<and> (\<forall>r. r \<in> set (pool_leased (pool s)) \<longrightarrow>
                 clients (cancelBackend pid choice s) r = clients s r)"
proof -
  obtain res s1 where cn: "connect choice s = (res, s1)" by (cases "connect choice s")
  note cb = connect_basic [OF inv cn]
  show ?thesis
  proof (cases res)
    case (Inl m)
    from cn Inl have "s1 = s" by (simp add: connect_fail)
    with cn Inl inv show ?thesis by (simp add: cancelBackend_def)
  next
    case (Inr cc)
    note sh = connect_shape [OF cn [unfolded Inr]]
    from cb Inr have i1: "basic_inv s1" and notin: "cc \<notin> set (pool_leased (pool s))"
      and noflag: "\<not> originalRelease (clients s1 cc)"
      and ins: "set (pool_leased (pool s1)) = insert cc (set (pool_leased (pool s)))"
      by simp_all
    have s2: "cancelBackend pid choice s
                = s1\<lparr>cancelRequests := cancelRequests s1 @ [pid],
                      pool := pool_release cc False (pool s1)\<rparr>"
      using cn Inr by (simp add: cancelBackend_def)
    have flag0: "\<not> originalRelease (clients s cc)"
      using basic_invD(2) [OF inv, of cc] notin by auto
    have flag: "originalRelease (clients s1 r) = originalRelease (clients s r)" for r
      using sh flag0 noflag by (cases "r = cc") auto
    have met: "releasedConnections (metrics s1) = releasedConnections (metrics s)
             \<and> activeLeasedConnections (metrics s1) = activeLeasedConnections (metrics s)"
      using cn Inr by (auto simp: connect_def split: sum.splits prod.splits if_splits)
    have leased: "set (pool_leased (pool_release cc False (pool s1))) = set (pool_leased (pool s))"
      using ins notin by (auto simp: pool_release_fields)
    have "basic_inv (cancelBackend pid choice s)"
    proof (rule basic_invI)
      show "0 \<le> activeLeasedConnections (metrics (cancelBackend pid choice s))"
        using basic_invD(1) [OF i1] by (simp add: s2)
      show "pool_inv (pool (cancelBackend pid choice s))"
        using basic_invD(1) [OF i1] by (simp add: s2 pool_release_inv)
      show "r \<in> set (pool_leased (pool (cancelBackend pid choice s)))"
        if "originalRelease (clients (cancelBackend pid choice s) r)" for r
        using that basic_invD(2) [OF inv, of r] by (simp add: s2 flag leased)
    qed
    moreover have "clients (cancelBackend pid choice s) r = clients s r"
      if "r \<in> set (pool_leased (pool s))" for r
      using that notin sh by (auto simp: s2)
    ultimately show ?thesis
      using sh flag met leased by (simp add: s2)
  qed
qed

lemma release_view:
  "set (pool_leased (pool (performClientRelease c e f t s)))
     = (if originalRelease (clients s c) then set (pool_leased (pool s)) - {c}
        else set (pool_leased (pool s)))"
  "originalRelease (clients (performClientRelease c e f t s) r)
     = (if r = c then False else originalRelease (clients s r))"
  "releasedConnections (metrics (performClientRelease c e f t s))
     = (if is_tracked c s then releasedConnections (metrics s) + 1
        else releasedConnections (metrics s))"
proof -
  show "set (pool_leased (pool (performClientRelease c e f t s)))
     = (if originalRelease (clients s c) then set (pool_leased (pool s)) - {c}
        else set (pool_leased (pool s)))"
  proof (cases "is_tracked c s")
    case False
    then show ?thesis by (simp add: untracked_release pool_release_fields)
  next
    case True
    then obtain i a where "connectionId (clients s c) = Some i" "connectionTimestamps s i = Some a"
      by (auto simp: is_tracked_def split: option.splits)
    from tracked_release [OF this] show ?thesis by (simp add: pool_release_fields)
  qed
  show "originalRelease (clients (performClientRelease c e f t s) r)
     = (if r = c then False else originalRelease (clients s r))"
  proof (cases "is_tracked c s")
    case False
    then show ?thesis by (simp add: untracked_release)
  next
    case True
    then obtain i a where "connectionId (clients s c) = Some i" "connectionTimestamps s i = Some a"
      by (auto simp: is_tracked_def split: option.splits)
    from tracked_release [OF this] show ?thesis by simp
  qed
  show "releasedConnections (metrics (performClientRelease c e f t s))
     = (if is_tracked c s then releasedConnections (metrics s) + 1
        else releasedConnections (metrics s))"
  proof (cases "is_tracked c s")
    case False
    then show ?thesis by (simp add: untracked_release)
  next
    case True
    then obtain i a where "connectionId (clients s c) = Some i" "connectionTimestamps s i = Some a"
      by (auto simp: is_tracked_def split: option.splits)
    from tracked_release [OF this] True show ?thesis by simp
  qed
qed

lemma queryTimeoutCallback_basic:
  assumes inv: "basic_inv s"
  shows "basic_inv (snd (queryTimeoutCallback c pid choice now s))"
proof (cases "emit_error (DatabaseConnectionError ''Query timeout detected'') s")
  case (Inl e)
  with inv show ?thesis by (simp add: queryTimeoutCallback_def)
next
  case (Inr s1)
  from emit_error_basic [OF Inr] inv have i1: "basic_inv s1" by simp
  have i2: "basic_inv (case pid of None \<Rightarrow> s1
                       | Some p \<Rightarrow> if p = 0 then s1 else cancelBackend p choice s1)"
    using i1 cancelBackend_basic [OF i1] by (simp split: option.splits)
  show ?thesis
    using performClientRelease_basic [OF i2]
    by (simp add: queryTimeoutCallback_def Inr Let_def)
qed

lemma fireTimer_basic: "basic_inv s \<Longrightarrow> basic_inv (fireTimer t choice now s)"
  by (cases "timers s t") (simp_all add: fireTimer_def queryTimeoutCallback_basic split: prod.splits)

lemma clientQuery_basic: "basic_inv s \<Longrightarrow> basic_inv (snd (clientQuery c outcome s))"
  by (cases "originalQuery (clients s c)"; cases outcome)
     (simp_all add: clientQuery_def Let_def fireTimer_basic)

lemma getConnection_catch_basic:
  assumes inv: "basic_inv s"
  shows "basic_inv (snd (getConnection_catch e env now s))"
proof -
  let ?s1 = "s\<lparr>metrics := addHistory Failed_acquire now (Some (gc_internalConnectionId env))
                 (Some (now - gc_acquisitionStartTime env)) (Some (message e))
                 ((metrics s)\<lparr>failedAcquisitions := failedAcquisitions (metrics s) + 1\<rparr>)\<rparr>"
  have i1: "basic_inv ?s1 = basic_inv s" by (rule basic_inv_cong) simp_all
  show ?thesis
  proof (cases "emit_error e ?s1")
    case (Inl thrown)
    with inv i1 show ?thesis by (simp add: getConnection_catch_def Let_def)
  next
    case (Inr s2)
    from emit_error_basic [OF Inr] inv i1 show ?thesis
      by (simp add: getConnection_catch_def Let_def Inr)
  qed
qed

lemma registerLease_basic:
  assumes "basic_inv s" and "c \<in> set (pool_leased (pool s))"
  shows "basic_inv (registerLease options env c s)"
  using assms by (auto simp: basic_inv_def)

lemma getConnection_basic:
  assumes inv: "basic_inv s"
  shows "basic_inv (snd (getConnection options env s))"
proof -
  obtain res s0 where c: "connect (gc_connect env) s = (res, s0)"
    by (cases "connect (gc_connect env) s")
  note cb = connect_basic [OF inv c]
  show ?thesis
  proof (cases res)
    case (Inl m)
    with c cb show ?thesis by (simp add: getConnection_def getConnection_catch_basic)
  next
    case (Inr cl)
    from cb Inr have i0: "basic_inv s0" and leased: "cl \<in> set (pool_leased (pool s0))" by simp_all
    have i1: "basic_inv (registerLease options env cl s0)"
      by (rule registerLease_basic [OF i0 leased])
    obtain r2 s2 where q1: "(if isolationLevelOf options \<noteq> None
                 then clientQuery cl (gc_isolationQuery env) (registerLease options env cl s0)
                 else (Inr (), registerLease options env cl s0)) = (r2, s2)"
      by (cases "(if isolationLevelOf options \<noteq> None
                 then clientQuery cl (gc_isolationQuery env) (registerLease options env cl s0)
                 else (Inr (), registerLease options env cl s0))")
    have i2: "basic_inv s2"
      using q1 clientQuery_basic [OF i1, of cl "gc_isolationQuery env"] i1
      by (auto split: if_splits)
    obtain r3 s3 where q2: "(if readOnlyOf options \<noteq> None
                      then clientQuery cl (gc_readOnlyQuery env) s2 else (Inr (), s2)) = (r3, s3)"
      by (cases "(if readOnlyOf options \<noteq> None
                      then clientQuery cl (gc_readOnlyQuery env) s2 else (Inr (), s2))")
    have i3: "basic_inv s3"
      using q2 clientQuery_basic [OF i2, of cl "gc_readOnlyQuery env"] i2
      by (auto split: if_splits)
    show ?thesis
      using c Inr q1 q2 i2 i3
      by (cases r2; cases r3) (simp_all add: getConnection_def getConnection_catch_basic)
  qed
qed

lemma dispose_basic: "basic_inv s \<Longrightarrow> basic_inv (dispose s)"
  by (simp add: basic_inv_def dispose_def pool_end_def pool_inv_def)

lemma resetMetrics_basic: "basic_inv s \<Longrightarrow> basic_inv (resetMetrics now s)"
  by (simp add: basic_inv_def resetMetrics_def initializeMetrics_def Let_def)

lemma pm_step_basic: "basic_inv s \<Longrightarrow> basic_inv (pm_step op s)"
  by (cases op)
     (simp_all add: getConnection_basic releaseConnection_def performClientRelease_basic
        clientQuery_basic fireTimer_basic clientErrorListener_def dispose_basic
        resetMetrics_basic)

lemma pm_run_basic: "basic_inv s \<Longrightarrow> basic_inv (pm_run ops s)"
  by (induction ops arbitrary: s) (simp_all add: pm_step_basic)

lemma new_basic: "basic_inv (newConnectionPoolManager cfg now)"
  by (simp add: basic_inv_def newConnectionPoolManager_def initializeMetrics_def pool_inv_def
      new_client_def)

subsection \<open>The active-lease count\<close>

text \<open>
  C4, as stated, fails. The lease id is built from the clock and a random suffix, and
  nothing checks that it is new. When an acquisition draws the id of a lease that is
  still tracked, the table keeps one entry for two leases: the first release removes it
  and decrements the count, the second finds its handle untracked and only hands the
  client back to the pool. The count is then 1 with no client checked out, and two more
  acquisitions on the pool of two raise it to 3.
\<close>

theorem colliding_lease_ids_counterexample:
  "activeLeasedConnections (metrics (pm_run collision_ops (newConnectionPoolManager (Some 2) 0))) = 3
   \<and> maxConnections (Some 2) = 2
   \<and> \<not> activeLeasedConnections (metrics (pm_run collision_ops (newConnectionPoolManager (Some 2) 0)))
         \<le> int (maxConnections (Some 2))"
  by (simp add: example_defs evaluation_defs)

text \<open>
  C4, amended: after any sequence of calls on a new manager (acquisitions, releases
  through \<^verbatim>\<open>releaseConnection\<close> or the handle, queries, fired timers, client
  errors, resets, disposal), \<open>activeLeasedConnections\<close> is at least 0; and when every
  generated lease id is unique among the leases tracked at that moment, it is at most the
  configured maximum pool size. The upper bound rests on the pool never having more than
  its maximum of clients checked out.
\<close>

theorem active_leases_within_bounds:
  "0 \<le> activeLeasedConnections (metrics (pm_run ops (newConnectionPoolManager cfg now)))
   \<and> (fresh_ids ops (newConnectionPoolManager cfg now) \<longrightarrow>
        activeLeasedConnections (metrics (pm_run ops (newConnectionPoolManager cfg now)))
          \<le> int (maxConnections cfg))"
proof -
  have "basic_inv (pm_run ops (newConnectionPoolManager cfg now))"
    by (rule pm_run_basic [OF new_basic])
  from basic_invD(1) [OF this]
  have lower: "0 \<le> activeLeasedConnections (metrics (pm_run ops (newConnectionPoolManager cfg now)))"
    by simp
  have upper: "activeLeasedConnections (metrics (pm_run ops (newConnectionPoolManager cfg now)))
                 \<le> int (maxConnections cfg)"
    if fresh: "fresh_ids ops (newConnectionPoolManager cfg now)"
  proof -
    have "pm_inv (maxConnections cfg) (pm_run ops (newConnectionPoolManager cfg now))"
      by (rule pm_run_inv [OF new_inv fresh])
    from pm_inv_bound [OF this] pm_inv_poolD [OF this] show ?thesis by simp
  qed
  from lower upper show ?thesis by blast
qed

theorem active_leases_within_bounds_witness:
  "fresh_ids example_ops (newConnectionPoolManager (Some 2) 0)
   \<and> 0 \<le> activeLeasedConnections (metrics (pm_run example_ops (newConnectionPoolManager (Some 2) 0)))
   \<and> activeLeasedConnections (metrics (pm_run example_ops (newConnectionPoolManager (Some 2) 0)))
       \<le> int (maxConnections (Some 2))"
proof -
  have fresh: "fresh_ids example_ops (newConnectionPoolManager (Some 2) 0)"
    by (simp add: example_defs evaluation_defs)
  from active_leases_within_bounds [of example_ops "Some 2" 0] fresh show ?thesis by simp
qed

subsection \<open>Releasing a handle\<close>

text \<open>
  C7, as stated, fails. A lease is tracked through a property of the client object, and
  the pool hands the same object out again. A client is leased, released, and leased to
  a second caller (the lease ids differ); when the first caller releases its handle once
  more, the call finds the handle tracked: it counts a second release, takes the active
  count to 0, removes the second caller's lease from the table and checks the client
  back into the pool. Further, with two leases under one lease id, the release of the
  first client (which is tracked, under the shared id) clears the timer recorded for the
  second lease, and the timer of the query running on the released client stays pending.
\<close>

theorem stale_release_counterexample:
  "fresh_ids [GetConnection None example_gc_env, ReleaseConnection 0 None None 2000,
              GetConnection None (second_gc_env\<lparr>gc_connect := ConnectIdle 0\<rparr>)]
     (newConnectionPoolManager (Some 2) 0)
   \<and> releasedConnections (metrics released_twice_manager) = 1
   \<and> activeLeasedConnections (metrics released_twice_manager) = 1
   \<and> connectionTimestamps released_twice_manager ''conn_2'' \<noteq> None
   \<and> pool_leased (pool released_twice_manager) = [0]
   \<and> releasedConnections (metrics (releaseConnection 0 None None 3000 released_twice_manager)) = 2
   \<and> activeLeasedConnections (metrics (releaseConnection 0 None None 3000 released_twice_manager)) = 0
   \<and> connectionTimestamps (releaseConnection 0 None None 3000 released_twice_manager) ''conn_2'' = None
   \<and> pool_leased (pool (releaseConnection 0 None None 3000 released_twice_manager)) = []
   \<and> is_tracked 0 colliding_query_manager
   \<and> timers colliding_query_manager 0 = Some (0, Some 4242)
   \<and> timers (releaseConnection 0 None None 3000 colliding_query_manager) 0 = Some (0, Some 4242)"
  by (simp add: example_defs evaluation_defs is_tracked_def)

text \<open>
  C7, amended. \<^verbatim>\<open>releaseConnection\<close> is \<^verbatim>\<open>performClientRelease\<close>.
  Releasing a handle that has just been released changes nothing at all. Releasing a
  handle that is untracked at the time of the call (it carries no lease id, or an id that
  is not in the table) leaves the metrics, the table, the pending timers and the emitted
  events as they were. Releasing a tracked handle sets the active-lease count to the
  maximum of 0 and the count less one, clears the timer recorded for the lease, and
  leaves the handle untracked; in every state that a new manager reaches with lease ids
  unique among the tracked leases, no timer whose callback would act on the handle is
  pending afterwards. No release throws: in every state that a new manager reaches, by
  any sequence of calls, the stored \<^verbatim>\<open>pg\<close> release is present only on a client
  that is checked out of the pool.
\<close>

theorem release_is_idempotent:
  "releaseConnection c e f t s = performClientRelease c e f t s
   \<and> performClientRelease c e' f' t' (performClientRelease c e f t s)
       = performClientRelease c e f t s
   \<and> (\<not> is_tracked c s \<longrightarrow>
        metrics (performClientRelease c e f t s) = metrics s
        \<and> connectionTimestamps (performClientRelease c e f t s) = connectionTimestamps s
        \<and> timers (performClientRelease c e f t s) = timers s
        \<and> emitted (performClientRelease c e f t s) = emitted s)
   \<and> (is_tracked c s \<longrightarrow>
        activeLeasedConnections (metrics (performClientRelease c e f t s))
          = max 0 (activeLeasedConnections (metrics s) - 1)
        \<and> 0 \<le> activeLeasedConnections (metrics (performClientRelease c e f t s))
        \<and> \<not> is_tracked c (performClientRelease c e f t s)
        \<and> (\<forall>i a h. connectionId (clients s c) = Some i \<and> connectionTimestamps s i = Some a
                   \<and> queryTimeoutTimer (leases s a) = Some h
              \<longrightarrow> timers (performClientRelease c e f t s) h = None))
   \<and> (fresh_ids ops (newConnectionPoolManager cfg now)
        \<and> is_tracked c (pm_run ops (newConnectionPoolManager cfg now)) \<longrightarrow>
        (\<forall>h pid. timers (performClientRelease c e f t
                            (pm_run ops (newConnectionPoolManager cfg now))) h \<noteq> Some (c, pid)))
   \<and> \<not> release_throws c (pm_run ops (newConnectionPoolManager cfg now))"
proof -
  have a: "releaseConnection c e f t s = performClientRelease c e f t s"
    by (simp add: releaseConnection_def)
  have b: "\<not> is_tracked c s \<Longrightarrow>
        metrics (performClientRelease c e f t s) = metrics s
        \<and> connectionTimestamps (performClientRelease c e f t s) = connectionTimestamps s
        \<and> timers (performClientRelease c e f t s) = timers s
        \<and> emitted (performClientRelease c e f t s) = emitted s"
    by (simp add: untracked_release_core)
  have c: "activeLeasedConnections (metrics (performClientRelease c e f t s))
          = max 0 (activeLeasedConnections (metrics s) - 1)" if "is_tracked c s"
  proof -
    from that obtain i a where i: "connectionId (clients s c) = Some i"
      and a: "connectionTimestamps s i = Some a"
      by (auto simp: is_tracked_def split: option.splits)
    show ?thesis by (simp add: tracked_release_core [OF i a])
  qed
  have d: "timers (performClientRelease c e f t
                     (pm_run ops (newConnectionPoolManager cfg now))) h \<noteq> Some (c, pid)"
    if "fresh_ids ops (newConnectionPoolManager cfg now)"
      and "is_tracked c (pm_run ops (newConnectionPoolManager cfg now))" for h pid
    using that by (rule tracked_release_no_pending_timer)
  have g: "\<not> release_throws c (pm_run ops (newConnectionPoolManager cfg now))"
    using basic_invD(2) [OF pm_run_basic [OF new_basic], of ops cfg now c]
    by (auto simp: release_throws_def)
  have first: "releaseConnection c e f t s = performClientRelease c e f t s
   \<and> performClientRelease c e' f' t' (performClientRelease c e f t s)
       = performClientRelease c e f t s
   \<and> (\<not> is_tracked c s \<longrightarrow>
        metrics (performClientRelease c e f t s) = metrics s
        \<and> connectionTimestamps (performClientRelease c e f t s) = connectionTimestamps s
        \<and> timers (performClientRelease c e f t s) = timers s
        \<and> emitted (performClientRelease c e f t s) = emitted s)
   \<and> (is_tracked c s \<longrightarrow>
        activeLeasedConnections (metrics (performClientRelease c e f t s))
          = max 0 (activeLeasedConnections (metrics s) - 1)
        \<and> 0 \<le> activeLeasedConnections (metrics (performClientRelease c e f t s))
        \<and> \<not> is_tracked c (performClientRelease c e f t s)
        \<and> (\<forall>i a h. connectionId (clients s c) = Some i \<and> connectionTimestamps s i = Some a
                   \<and> queryTimeoutTimer (leases s a) = Some h
              \<longrightarrow> timers (performClientRelease c e f t s) h = None))"
    using a b c release_twice [of c e' f' t' e f t s] released_untracked [of c e f t s]
      tracked_release_timer [of s c _ _ _ e f t]
    by (auto simp del: max.bounded_iff)
  from first d g show ?thesis by blast
qed

lemma pending_query_manager_facts:
  "connectionId (clients pending_query_manager 0) = Some ''conn_1''
   \<and> connectionTimestamps pending_query_manager ''conn_1'' = Some 0
   \<and> queryTimeoutTimer (leases pending_query_manager 0) = Some 0
   \<and> timers pending_query_manager 0 = Some (0, Some 4242)
   \<and> activeLeasedConnections (metrics pending_query_manager) = 1
   \<and> errorListeners pending_query_manager = 0
   \<and> pool_leased (pool pending_query_manager) = [0]"
  by (simp add: example_defs evaluation_defs)

theorem release_is_idempotent_witness:
  "is_tracked 0 pending_query_manager
   \<and> fresh_ids [GetConnection None example_gc_env, IssueQuery 0]
        (newConnectionPoolManager (Some 2) 0)
   \<and> timers pending_query_manager 0 = Some (0, Some 4242)
   \<and> activeLeasedConnections (metrics pending_query_manager) = 1
   \<and> activeLeasedConnections (metrics (performClientRelease 0 None None 2000 pending_query_manager)) = 0
   \<and> timers (performClientRelease 0 None None 2000 pending_query_manager) 0 = None
   \<and> (\<forall>h pid. timers (performClientRelease 0 None None 2000 pending_query_manager) h
                  \<noteq> Some (0, pid))
   \<and> \<not> is_tracked 0 (performClientRelease 0 None None 2000 pending_query_manager)
   \<and> performClientRelease 0 None None 2001 (performClientRelease 0 None None 2000 pending_query_manager)
       = performClientRelease 0 None None 2000 pending_query_manager
   \<and> \<not> release_throws 0 pending_query_manager"
proof -
  have tr: "is_tracked 0 pending_query_manager"
    using pending_query_manager_facts by (simp add: is_tracked_def)
  have fresh: "fresh_ids [GetConnection None example_gc_env, IssueQuery 0]
                 (newConnectionPoolManager (Some 2) 0)"
    by (simp add: example_gc_env_def newConnectionPoolManager_def)
  note th = release_is_idempotent
              [of 0 None None 2000 pending_query_manager None None 2001
                  "[GetConnection None example_gc_env, IssueQuery 0]" "Some 2" 0,
               folded pending_query_manager_def]
  from th tr fresh pending_query_manager_facts show ?thesis by auto
qed

subsection \<open>A fired query timer\<close>

text \<open>
  A query that settles before its deadline clears the timer it started and changes
  neither the metrics, the lease table, the pool nor the cancellations sent; a fired timer
  sends at most one cancellation.
\<close>

lemma settled_query_fields:
  assumes "outcome = QueryOk \<or> outcome = QueryFail m"
  shows "metrics (snd (clientQuery c outcome s)) = metrics s"
    and "connectionTimestamps (snd (clientQuery c outcome s)) = connectionTimestamps s"
    and "pool (snd (clientQuery c outcome s)) = pool s"
    and "clients (snd (clientQuery c outcome s)) = clients s"
    and "emitted (snd (clientQuery c outcome s)) = emitted s"
    and "cancelRequests (snd (clientQuery c outcome s)) = cancelRequests s"
  using assms
  by (auto simp: clientQuery_def queryStart_def querySettle_def clearTimeout_opt_def
        clearTimeout_def Let_def split: option.splits)

lemma settled_query_timer:
  assumes "outcome = QueryOk \<or> outcome = QueryFail m"
    and "originalQuery (clients s c) = Some a"
  shows "timers (snd (clientQuery c outcome s)) (nextTimer s) = None"
    and "dom (timers (snd (clientQuery c outcome s))) \<subseteq> dom (timers s)"
  using assms
  by (auto simp: clientQuery_def queryStart_def querySettle_def clearTimeout_opt_def
        clearTimeout_def Let_def split: option.splits if_splits)

lemma fired_timer_cancels_at_most_once:
  "cancelRequests (fireTimer t choice now s) = cancelRequests s
   \<or> (\<exists>pid. cancelRequests (fireTimer t choice now s) = cancelRequests s @ [pid])"
proof (cases "timers s t")
  case None
  then show ?thesis by (simp add: fireTimer_def)
next
  case (Some cb)
  obtain c pid where cb: "cb = (c, pid)" by (cases cb)
  show ?thesis
  proof (cases "emit_error (DatabaseConnectionError ''Query timeout detected'') (clearTimeout t s)")
    case (Inl e)
    with Some cb show ?thesis
      by (simp add: fireTimer_def queryTimeoutCallback_def clearTimeout_def)
  next
    case (Inr s1)
    then have s1: "cancelRequests s1 = cancelRequests s"
      by (auto simp: emit_error_def clearTimeout_def split: if_splits)
    have rel: "cancelRequests (performClientRelease c e f n s') = cancelRequests s'" for e f n s'
    proof (cases "is_tracked c s'")
      case False
      then show ?thesis by (simp add: untracked_release_core)
    next
      case True
      then obtain i a where "connectionId (clients s' c) = Some i" "connectionTimestamps s' i = Some a"
        by (auto simp: is_tracked_def split: option.splits)
      then show ?thesis by (simp add: tracked_release)
    qed
    have cb2: "cancelRequests (cancelBackend p choice s1) = cancelRequests s1
              \<or> cancelRequests (cancelBackend p choice s1) = cancelRequests s1 @ [p]" for p
      by (auto simp: cancelBackend_def connect_def split: prod.splits sum.splits)
    show ?thesis
      using Some cb Inr s1 cb2
      by (auto simp: fireTimer_def queryTimeoutCallback_def Let_def rel split: option.splits)
  qed
qed


lemma addHistory_last:
  "connectionHistory (addHistory ty now cid dur err m) \<noteq> []
   \<and> last (connectionHistory (addHistory ty now cid dur err m))
       = \<lparr>ch_type = ty, ch_timestamp = now, ch_connectionId = cid,
          ch_durationMs = dur, ch_error = err\<rparr>"
proof -
  let ?e = "\<lparr>ch_type = ty, ch_timestamp = now, ch_connectionId = cid,
             ch_durationMs = dur, ch_error = err\<rparr>"
  let ?h = "connectionHistory m @ [?e]"
  have "tl ?h \<noteq> [] \<and> last (tl ?h) = ?e" if "length ?h > 200"
  proof -
    from that have "connectionHistory m \<noteq> []" by auto
    then show ?thesis by (cases "connectionHistory m") (auto simp: last_append)
  qed
  then show ?thesis by (auto simp: addHistory_def Let_def)
qed

lemma recordRelease_history:
  "connectionHistory (metrics (recordRelease c i a e now s)) \<noteq> []
   \<and> ch_type (last (connectionHistory (metrics (recordRelease c i a e now s))))
       = (if e \<noteq> None then Client_error_released else Released)
   \<and> ch_connectionId (last (connectionHistory (metrics (recordRelease c i a e now s)))) = Some i"
  using addHistory_last
  by (simp add: recordRelease_def Let_def)

lemma cancelBackend_keeps_lease:
  assumes pinv: "pm_inv M s" and leased: "c \<in> set (pool_leased (pool s))"
  shows "clients (cancelBackend pid choice s) c = clients s c
       \<and> connectionTimestamps (cancelBackend pid choice s) = connectionTimestamps s
       \<and> emitted (cancelBackend pid choice s) = emitted s
       \<and> connectionHistory (metrics (cancelBackend pid choice s)) = connectionHistory (metrics s)
       \<and> c \<in> set (pool_leased (pool (cancelBackend pid choice s)))
       \<and> (c \<notin> set (pool_idle (pool s)) \<longrightarrow>
            c \<notin> set (pool_idle (pool (cancelBackend pid choice s))))"
proof -
  obtain res s1 where cn: "connect choice s = (res, s1)" by (cases "connect choice s")
  show ?thesis
  proof (cases res)
    case (Inl m)
    from cn Inl have "s1 = s" by (simp add: connect_fail)
    with cn Inl leased show ?thesis by (simp add: cancelBackend_def)
  next
    case (Inr cc)
    note sh = connect_shape [OF cn [unfolded Inr]]
    have notin: "cc \<notin> set (pool_leased (pool s))"
      and ins: "set (pool_leased (pool s1)) = insert cc (set (pool_leased (pool s)))"
      using cn Inr pm_inv_poolD [OF pinv]
      by (auto simp: connect_def split: sum.splits prod.splits if_splits dest: pool_connect_inv)
    from notin leased have cc: "cc \<noteq> c" by auto
    have hist: "connectionHistory (metrics s1) = connectionHistory (metrics s)"
      using cn Inr by (auto simp: connect_def split: sum.splits prod.splits if_splits)
    have s2: "cancelBackend pid choice s
                = s1\<lparr>cancelRequests := cancelRequests s1 @ [pid],
                      pool := pool_release cc False (pool s1)\<rparr>"
      using cn Inr by (simp add: cancelBackend_def)
    have idle: "set (pool_idle (pool_release cc False (pool s1)))
                  \<subseteq> insert cc (set (pool_idle (pool s1)))"
      by (auto simp: pool_release_def)
    show ?thesis
      using sh cc hist leased ins idle
      by (auto simp: s2 pool_release_fields)
  qed
qed

text \<open>In a reachable state of a manager that has an \<^verbatim>\<open>'error'\<close> listener and is not
  disposed, a fired timer delivers the error event, writes the error-release entry for
  the lease, and takes the handle out of the pool without putting it on the idle list.\<close>

lemma fired_timer_with_listener:
  assumes fresh: "fresh_ids ops (newConnectionPoolManager cfg now)"
    and pending: "timers (pm_run ops (newConnectionPoolManager cfg now)) t = Some (c, pid)"
    and listen: "0 < errorListeners (pm_run ops (newConnectionPoolManager cfg now))"
    and ne: "\<not> pool_ended (pool (pm_run ops (newConnectionPoolManager cfg now)))"
  shows "ErrorEvent (DatabaseConnectionError ''Query timeout detected'')
           \<in> set (emitted (fireTimer t choice now' (pm_run ops (newConnectionPoolManager cfg now))))
       \<and> connectionHistory (metrics
             (fireTimer t choice now' (pm_run ops (newConnectionPoolManager cfg now)))) \<noteq> []
       \<and> ch_type (last (connectionHistory (metrics
             (fireTimer t choice now' (pm_run ops (newConnectionPoolManager cfg now))))))
           = Client_error_released
       \<and> ch_connectionId (last (connectionHistory (metrics
             (fireTimer t choice now' (pm_run ops (newConnectionPoolManager cfg now))))))
           = connectionId (clients (pm_run ops (newConnectionPoolManager cfg now)) c)
       \<and> c \<notin> set (pool_leased (pool
             (fireTimer t choice now' (pm_run ops (newConnectionPoolManager cfg now)))))
       \<and> c \<notin> set (pool_idle (pool
             (fireTimer t choice now' (pm_run ops (newConnectionPoolManager cfg now)))))
       \<and> \<not> is_tracked c (fireTimer t choice now' (pm_run ops (newConnectionPoolManager cfg now)))"
proof -
  let ?s = "pm_run ops (newConnectionPoolManager cfg now)"
  let ?err = "DatabaseConnectionError ''Query timeout detected''"
  let ?rel = "PlainError ''Query timed out after 10000ms. Cancellation attempted.''"
  have pinv: "pm_inv (maxConnections cfg) ?s" by (rule pm_run_inv [OF new_inv fresh])
  have inv: "timer_inv ?s" by (rule pm_run_timer_inv [OF new_inv new_timer_inv fresh])
  from timer_inv_pendingD [OF inv ne pending] obtain a where
    w: "originalQuery (clients ?s c) = Some a" by blast
  from timer_inv_wrapperD [OF inv ne w] obtain i where
    orl: "originalRelease (clients ?s c)" and i: "connectionId (clients ?s c) = Some i"
    and a: "connectionTimestamps ?s i = Some a"
    by blast
  from pm_inv_trackedD [OF pinv ne i] have leased: "c \<in> set (pool_leased (pool ?s))" by simp
  from pm_inv_poolD [OF pinv] leased have notidle: "c \<notin> set (pool_idle (pool ?s))"
    by (auto simp: pool_inv_def)
  define s1 where "s1 = (clearTimeout t ?s)\<lparr>emitted := emitted ?s @ [ErrorEvent ?err]\<rparr>"
  have em: "emit_error ?err (clearTimeout t ?s) = Inr s1"
    using listen by (simp add: emit_error_def s1_def clearTimeout_def)
  have p1: "pm_inv (maxConnections cfg) s1"
    using emit_error_inv [OF em] pinv by simp
  have s1f: "clients s1 = clients ?s" "connectionTimestamps s1 = connectionTimestamps ?s"
    "pool s1 = pool ?s" "emitted s1 = emitted ?s @ [ErrorEvent ?err]"
    "metrics s1 = metrics ?s"
    by (simp_all add: s1_def clearTimeout_def)
  define s2 where "s2 = (case pid of None \<Rightarrow> s1
                          | Some p \<Rightarrow> if p = 0 then s1 else cancelBackend p choice s1)"
  have keep: "clients s2 c = clients ?s c \<and> connectionTimestamps s2 = connectionTimestamps ?s
       \<and> emitted s2 = emitted ?s @ [ErrorEvent ?err]
       \<and> c \<in> set (pool_leased (pool s2)) \<and> c \<notin> set (pool_idle (pool s2))"
  proof (cases "s2 = s1")
    case True
    with s1f leased notidle show ?thesis by simp
  next
    case False
    then obtain p where s2c: "s2 = cancelBackend p choice s1"
      by (auto simp: s2_def split: option.splits if_splits)
    from cancelBackend_keeps_lease [OF p1, of c p choice] leased notidle s1f
    show ?thesis by (simp add: s2c)
  qed
  have fire: "fireTimer t choice now' ?s = performClientRelease c (Some ?rel) None now' s2"
    using pending em by (simp add: fireTimer_def queryTimeoutCallback_def s2_def Let_def)
  from keep i a have i2: "connectionId (clients s2 c) = Some i"
    and a2: "connectionTimestamps s2 i = Some a" by simp_all
  note eq = tracked_release [OF i2 a2, of "Some ?rel" None now']
  have hist: "connectionHistory (metrics (performClientRelease c (Some ?rel) None now' s2))
               = connectionHistory (metrics (recordRelease c i a (Some ?rel) now'
                    (clearLeaseTimer a (restoreOriginalQuery c s2))))"
    by (simp add: eq)
  have orl2: "originalRelease (clients s2 c)" using keep orl by simp
  have pl: "pool (performClientRelease c (Some ?rel) None now' s2) = pool_release c True (pool s2)"
    using orl2 by (simp add: tracked_release_core(4) [OF i2 a2])
  have emitted: "ErrorEvent ?err \<in> set (emitted (performClientRelease c (Some ?rel) None now' s2))"
    using keep by (simp add: eq emitConnectionStatus_def)
  show ?thesis
    unfolding fire
    using emitted recordRelease_history [of c i a "Some ?rel" now'
            "clearLeaseTimer a (restoreOriginalQuery c s2)"]
      keep i released_untracked [of c "Some ?rel" None now' s2]
    by (simp add: hist pl pool_release_fields pool_release_def)
qed

text \<open>
  C5 at a failing input. A manager as the constructor leaves it has no listener for its
  own \<^verbatim>\<open>'error'\<close> event. One handle is leased (backend process 4242), a query is
  issued through it and its timer (handle 0) is pending. When the timer fires,
  \<^verbatim>\<open>emit('error', ...)\<close> throws inside the callback, so the callback ends there: no
  event is delivered, no \<open>client_error_released\<close> entry is written, no cancellation is
  sent, and the handle is still checked out, tracked and counted. With a listener
  registered beforehand, the same run delivers the error event, sends one cancellation for
  process 4242 through a helper connection (which goes back to the idle list), writes the
  \<open>client_error_released\<close> entry and destroys the handle.
\<close>

theorem query_timeout_without_error_listener:
  "timers pending_query_manager 0 = Some (0, Some 4242)
   \<and> errorListeners pending_query_manager = 0
   \<and> (case fireTimer 0 (ConnectNew (Some 4243)) 11005 pending_query_manager of s' \<Rightarrow>
         emitted s' = []
         \<and> map ch_type (connectionHistory (metrics s')) = [Acquired]
         \<and> pool_leased (pool s') = [0]
         \<and> connectionTimestamps s' ''conn_1'' = Some 0
         \<and> activeLeasedConnections (metrics s') = 1
         \<and> cancelRequests s' = []
         \<and> timers s' 0 = None)
   \<and> timers listening_manager 0 = Some (0, Some 4242)
   \<and> (case fireTimer 0 (ConnectNew (Some 4243)) 11005 listening_manager of s' \<Rightarrow>
         emitted s' = [ErrorEvent (DatabaseConnectionError ''Query timeout detected''),
                       ConnectionStatus 0]
         \<and> map ch_type (connectionHistory (metrics s')) = [Acquired, Client_error_released]
         \<and> pool_leased (pool s') = [] \<and> pool_idle (pool s') = [1]
         \<and> connectionTimestamps s' ''conn_1'' = None
         \<and> activeLeasedConnections (metrics s') = 0
         \<and> cancelRequests s' = [4242])"
  by (simp add: example_defs evaluation_defs)

section \<open>Properties of the two managers together\<close>

lemma querySettle_fields [simp]:
  "clients (querySettle a s) = clients s"
  "connectionTimestamps (querySettle a s) = connectionTimestamps s"
  "pool (querySettle a s) = pool s"
  "metrics (querySettle a s) = metrics s"
  by (simp_all add: querySettle_def clearTimeout_opt_def clearTimeout_def split: option.splits)

lemma is_tracked_cong:
  assumes "clients s' c = clients s c" and "connectionTimestamps s' = connectionTimestamps s"
  shows "is_tracked c s' = is_tracked c s"
  using assms by (simp add: is_tracked_def split: option.splits)

lemma querySettle_tracked [simp]: "is_tracked c (querySettle a s) = is_tracked c s"
  by (rule is_tracked_cong) simp_all

text \<open>What the time-out callback does to the pool, the stored release and the release
  counter, when the event is delivered.\<close>

lemma queryTimeoutCallback_view:
  assumes inv: "basic_inv s"
    and emit: "emit_error (DatabaseConnectionError ''Query timeout detected'') s = Inr s1"
  shows "set (pool_leased (pool (snd (queryTimeoutCallback c pid choice now s))))
           = (if originalRelease (clients s c) then set (pool_leased (pool s)) - {c}
              else set (pool_leased (pool s)))"
    and "\<not> originalRelease (clients (snd (queryTimeoutCallback c pid choice now s)) c)"
    and "\<not> is_tracked c (snd (queryTimeoutCallback c pid choice now s))"
    and "originalRelease (clients s c) \<Longrightarrow> is_tracked c s \<Longrightarrow>
           releasedConnections (metrics (snd (queryTimeoutCallback c pid choice now s)))
             = releasedConnections (metrics s) + 1"
proof -
  let ?s2 = "case pid of None \<Rightarrow> s1 | Some p \<Rightarrow> if p = 0 then s1 else cancelBackend p choice s1"
  let ?e = "Some (PlainError ''Query timed out after 10000ms. Cancellation attempted.'')"
  have cb: "snd (queryTimeoutCallback c pid choice now s)
              = performClientRelease c ?e None now ?s2"
    by (simp add: queryTimeoutCallback_def emit Let_def)
  from emit have s1: "s1 = s\<lparr>emitted := emitted s @ [ErrorEvent
                        (DatabaseConnectionError ''Query timeout detected'')]\<rparr>"
    by (auto simp: emit_error_def split: if_splits)
  have i1: "basic_inv s1" using emit_error_basic [OF emit] inv by simp
  have same1: "pool s1 = pool s" "clients s1 = clients s" "metrics s1 = metrics s"
    "connectionTimestamps s1 = connectionTimestamps s"
    by (simp_all add: s1)
  note cancel = cancelBackend_basic [OF i1]
  have leased: "set (pool_leased (pool ?s2)) = set (pool_leased (pool s))"
    using cancel same1 by (simp split: option.splits)
  have flag: "originalRelease (clients ?s2 r) = originalRelease (clients s r)" for r
    using cancel same1 by (simp split: option.splits)
  have rel: "releasedConnections (metrics ?s2) = releasedConnections (metrics s)"
    using cancel same1 by (simp split: option.splits)
  have tab: "connectionTimestamps ?s2 = connectionTimestamps s"
    using cancel same1 by (simp split: option.splits)
  have cl: "clients ?s2 c = clients s c" if "originalRelease (clients s c)"
  proof -
    from that basic_invD(2) [OF inv] have "c \<in> set (pool_leased (pool s1))"
      by (simp add: same1)
    with cancel same1 show ?thesis by (simp split: option.splits)
  qed
  show "set (pool_leased (pool (snd (queryTimeoutCallback c pid choice now s))))
           = (if originalRelease (clients s c) then set (pool_leased (pool s)) - {c}
              else set (pool_leased (pool s)))"
    unfolding cb by (simp only: release_view(1) leased flag)
  show "\<not> originalRelease (clients (snd (queryTimeoutCallback c pid choice now s)) c)"
    unfolding cb by (simp only: release_view(2)) simp
  show "\<not> is_tracked c (snd (queryTimeoutCallback c pid choice now s))"
    unfolding cb by (rule released_untracked)
  show "releasedConnections (metrics (snd (queryTimeoutCallback c pid choice now s)))
             = releasedConnections (metrics s) + 1"
    if f: "originalRelease (clients s c)" and tr: "is_tracked c s"
  proof -
    have "is_tracked c ?s2" using tr is_tracked_cong [OF cl [OF f] tab] by simp
    then show ?thesis unfolding cb by (simp only: release_view(3) rel) simp
  qed
qed

text \<open>The statement of a commit or rollback followed by the release of the handle.\<close>

lemma statement_then_release:
  assumes inv: "basic_inv s"
  shows "set (pool_leased (pool (performClientRelease c None None t (snd (clientQuery c q s)))))
           = (if originalRelease (clients s c) then set (pool_leased (pool s)) - {c}
              else set (pool_leased (pool s)))"
    and "originalRelease (clients s c) \<Longrightarrow> is_tracked c s \<Longrightarrow>
           releasedConnections (metrics (performClientRelease c None None t
                                           (snd (clientQuery c q s))))
             = releasedConnections (metrics s) + 1"
proof -
  let ?s' = "snd (clientQuery c q s)"
  have "(pool ?s' = pool s \<and> clients ?s' = clients s \<and> metrics ?s' = metrics s
          \<and> connectionTimestamps ?s' = connectionTimestamps s)
        \<or> (set (pool_leased (pool ?s'))
              = (if originalRelease (clients s c) then set (pool_leased (pool s)) - {c}
                 else set (pool_leased (pool s)))
            \<and> \<not> originalRelease (clients ?s' c) \<and> \<not> is_tracked c ?s'
            \<and> (originalRelease (clients s c) \<and> is_tracked c s \<longrightarrow>
                  releasedConnections (metrics ?s') = releasedConnections (metrics s) + 1))"
  proof (cases "originalQuery (clients s c)")
    case None
    then show ?thesis by (cases q) (simp_all add: clientQuery_def)
  next
    case (Some a)
    show ?thesis
    proof (cases q)
      case QueryOk
      then show ?thesis by (simp add: clientQuery_def Some Let_def)
    next
      case (QueryFail m)
      then show ?thesis by (simp add: clientQuery_def Some Let_def)
    next
      case (QueryTimeout choice now m)
      let ?s1 = "queryStart c a s"
      let ?s1c = "clearTimeout (nextTimer s) ?s1"
      have tm: "timers ?s1 (nextTimer s) = Some (c, processID (clients s c))" by simp
      have s': "?s' = querySettle a (snd (queryTimeoutCallback c (processID (clients s c))
                                            choice now ?s1c))"
        by (simp add: clientQuery_def Some QueryTimeout Let_def fireTimer_def tm del: queryStart_fields)
      have same: "pool ?s1c = pool s" "clients ?s1c = clients s" "metrics ?s1c = metrics s"
        "connectionTimestamps ?s1c = connectionTimestamps s"
        by (simp_all add: clearTimeout_def)
      have i1: "basic_inv ?s1c" using inv by simp
      show ?thesis
      proof (cases "emit_error (DatabaseConnectionError ''Query timeout detected'') ?s1c")
        case (Inl e)
        then have "snd (queryTimeoutCallback c (processID (clients s c)) choice now ?s1c) = ?s1c"
          by (simp add: queryTimeoutCallback_def)
        with s' same show ?thesis by simp
      next
        case (Inr s2)
        note v = queryTimeoutCallback_view [OF i1 Inr, of c "processID (clients s c)" choice now]
        have tr: "is_tracked c ?s1c = is_tracked c s"
          by (rule is_tracked_cong) (simp_all add: same)
        from v show ?thesis unfolding s' by (simp add: same tr)
      qed
    qed
  qed
  then consider
    (unchanged) "pool ?s' = pool s" "clients ?s' = clients s" "metrics ?s' = metrics s"
      "connectionTimestamps ?s' = connectionTimestamps s"
  | (released) "set (pool_leased (pool ?s'))
              = (if originalRelease (clients s c) then set (pool_leased (pool s)) - {c}
                 else set (pool_leased (pool s)))"
      "\<not> originalRelease (clients ?s' c)" "\<not> is_tracked c ?s'"
      "originalRelease (clients s c) \<and> is_tracked c s \<longrightarrow>
                  releasedConnections (metrics ?s') = releasedConnections (metrics s) + 1"
    by blast
  note cases = this
  show "set (pool_leased (pool (performClientRelease c None None t ?s')))
           = (if originalRelease (clients s c) then set (pool_leased (pool s)) - {c}
              else set (pool_leased (pool s)))"
  proof (cases rule: cases)
    case unchanged
    then show ?thesis by (simp only: release_view(1))
  next
    case released
    then show ?thesis by (simp only: release_view(1)) simp
  qed
  show "releasedConnections (metrics (performClientRelease c None None t ?s'))
             = releasedConnections (metrics s) + 1"
    if f: "originalRelease (clients s c)" and tr: "is_tracked c s"
  proof (cases rule: cases)
    case unchanged
    then have "is_tracked c ?s'" using tr is_tracked_cong [of ?s' c s] by simp
    then show ?thesis using unchanged by (simp only: release_view(3)) simp
  next
    case released
    with f tr show ?thesis by (simp only: release_view(3)) simp
  qed
qed

lemma fresh_tracked_has_release:
  assumes fresh: "fresh_ids ops (newConnectionPoolManager cfg now)"
    and tr: "is_tracked c (pm_run ops (newConnectionPoolManager cfg now))"
  shows "originalRelease (clients (pm_run ops (newConnectionPoolManager cfg now)) c)"
proof -
  let ?s = "pm_run ops (newConnectionPoolManager cfg now)"
  have pinv: "pm_inv (maxConnections cfg) ?s" by (rule pm_run_inv [OF new_inv fresh])
  have inv: "timer_inv ?s" by (rule pm_run_timer_inv [OF new_inv new_timer_inv fresh])
  from tr obtain i a where i: "connectionId (clients ?s c) = Some i"
    and a: "connectionTimestamps ?s i = Some a"
    by (auto simp: is_tracked_def split: option.splits)
  from pm_inv_endedD [OF pinv] a have ne: "\<not> pool_ended (pool ?s)" by auto
  from timer_inv_trackedD [OF inv ne i a] have "originalQuery (clients ?s c) = Some a" .
  from timer_inv_wrapperD [OF inv ne this] show ?thesis by simp
qed


lemma active_system_pm:
  "connectionId (clients (snd active_system) 0) = Some ''conn_1''
   \<and> connectionTimestamps (snd active_system) ''conn_1'' = Some 0
   \<and> releasedConnections (metrics (snd active_system)) = 0
   \<and> pool_leased (pool (snd active_system)) = [0]
   \<and> originalRelease (clients (snd active_system) 0)"
  by (simp add: example_defs evaluation_defs)

lemma active_system_reached:
  "snd active_system
     = pm_run [GetConnection None example_gc_env, ClientQuery 0 QueryOk]
         (newConnectionPoolManager (Some 2) 0)"
  by (simp add: example_defs evaluation_defs)


end
